theory Spec2Isabelle
  imports Main "HOL-Library.AList"
begin

section \<open>Values, documents and the collaborators of the server\<close>

text \<open>
  The server of \<^verbatim>\<open>src/index.js\<close> keeps no data of its own: every route reads or writes
  the collection \<^verbatim>\<open>books\<close> of a document store, and the protected routes first ask an
  identity provider to verify a bearer token. Documents are field lists in insertion
  order, as JavaScript objects are; a field is looked up with \<open>map_of\<close>. Besides
  the JSON values of a request body the store holds identifiers (twelve bytes, written as
  24 hexadecimal digits) and dates. Numbers are opaque payload and are kept as integers.

  The model follows \<^verbatim>\<open>src/index.js\<close>. The earlier copy of the file under
  \<^verbatim>\<open>src/unnamed\<close> has the same routes and the same \<^verbatim>\<open>verifyToken\<close>; it differs in that
  \<^verbatim>\<open>/add-book\<close> sets no \<^verbatim>\<open>createdAt\<close>, which no statement below depends on.
\<close>

datatype bson =
    BNull
  | BBool bool
  | BNum int
  | BStr string
  | BArr "bson list"
  | BObj "(string \<times> bson) list"
  | BObjectId "nat list"
  | BDate nat

type_synonym document = "(string \<times> bson) list"

text \<open>
  What a \<^verbatim>\<open>catch (err)\<close> of the source can receive: the \<^verbatim>\<open>TypeError\<close> of reading
  \<^verbatim>\<open>db.collection\<close> when \<^verbatim>\<open>connectDB\<close> failed and left \<^verbatim>\<open>db\<close> undefined, the
  error of the \<^verbatim>\<open>ObjectId\<close> constructor, an error of the store, an error of the
  identity provider. Each carries its \<^verbatim>\<open>message\<close>.
\<close>

datatype exn =
    TypeError string
  | BSONError string
  | MongoServerError string
  | FirebaseAuthError string

fun err_message :: "exn \<Rightarrow> string" where
  "err_message (TypeError m) = m"
| "err_message (BSONError m) = m"
| "err_message (MongoServerError m) = m"
| "err_message (FirebaseAuthError m) = m"

text \<open>
  The decoded token, \<^verbatim>\<open>req.user\<close>: the handlers read \<^verbatim>\<open>email\<close> and \<^verbatim>\<open>name\<close> only;
  \<^verbatim>\<open>name\<close> may be absent.
\<close>

record decoded_token =
  email :: string
  name :: "string option"

text \<open>
  The collaborators, one value per request: \<^verbatim>\<open>admin.auth().verifyIdToken\<close> on a string,
  the clock read by \<^verbatim>\<open>new Date()\<close>, the identifier the driver generates for a
  document inserted without \<^verbatim>\<open>_id\<close>, and what the store's \<^verbatim>\<open>$set\<close> does with a path
  that has a name beginning with \<^verbatim>\<open>$\<close> (see the section on the store).
\<close>

record env =
  verifyIdToken :: "string \<Rightarrow> exn + decoded_token"
  now :: nat
  createPk :: "nat list"
  operator_path :: "(string \<times> bson) list \<Rightarrow> string list \<Rightarrow> bson \<Rightarrow> bson option \<Rightarrow> exn + bson"

text \<open>
  The calls that leave the process, in the order they are made. A handler returns its
  response, the new content of the store and this log.
\<close>

datatype call =
    VerifyIdToken "string option"
  | InsertOne document
  | Find document
  | FindOne document
  | UpdateOne document document
  | DeleteOne document

fun storage_call :: "call \<Rightarrow> bool" where
  "storage_call (VerifyIdToken t) = False"
| "storage_call c = True"

datatype route =
    Liveness
  | AddBook
  | AllBooks
  | BookDetails string
  | MyBooks
  | UpdateBook string
  | DeleteBook string

text \<open>
  A request: the route with its \<^verbatim>\<open>:id\<close> parameter, the \<^verbatim>\<open>Authorization\<close> header if
  there is one, and the body as \<^verbatim>\<open>express.json()\<close> parsed it, an object.
\<close>

record request =
  route :: route
  authorization :: "string option"
  body :: document

datatype payload = Json bson | Text string

record response =
  status :: nat
  content :: payload

text \<open>
  The variable \<^verbatim>\<open>db\<close>: \<open>None\<close> when \<^verbatim>\<open>connectDB\<close> caught a connection error (the
  server starts all the same), otherwise the collection \<^verbatim>\<open>books\<close>.
\<close>

type_synonym store = "document list option"

type_synonym result = "response \<times> store \<times> call list"

definition json :: "nat \<Rightarrow> document \<Rightarrow> response" where
  "json code flds = \<lparr>status = code, content = Json (BObj flds)\<rparr>"

definition has_message_or_error :: "payload \<Rightarrow> bool" where
  "has_message_or_error p =
     (case p of
        Json (BObj flds) \<Rightarrow> map_of flds ''message'' \<noteq> None \<or> map_of flds ''error'' \<noteq> None
      | _ \<Rightarrow> False)"

section \<open>The authenticator\<close>

text \<open>
  \<^verbatim>\<open>String.prototype.startsWith\<close>, \<^verbatim>\<open>String.prototype.split\<close> on a one-character
  separator, and reading an array at an index (\<^verbatim>\<open>undefined\<close> past the end).
\<close>

definition startsWith :: "string \<Rightarrow> string \<Rightarrow> bool" where
  "startsWith s p = (take (length p) s = p)"

fun js_split :: "char \<Rightarrow> string \<Rightarrow> string list" where
  "js_split sep [] = [[]]"
| "js_split sep (c # cs) =
     (if c = sep then [] # js_split sep cs
      else (case js_split sep cs of
              [] \<Rightarrow> [[c]]
            | w # ws \<Rightarrow> (c # w) # ws))"

definition at_index :: "'a list \<Rightarrow> nat \<Rightarrow> 'a option" where
  "at_index xs i = (if i < length xs then Some (xs ! i) else None)"

text \<open>
  The provider's \<^verbatim>\<open>verifyIdToken\<close> refuses an argument that is not a string before it
  looks at it; \<^verbatim>\<open>undefined\<close> is such an argument.
\<close>

definition call_verifyIdToken :: "env \<Rightarrow> string option \<Rightarrow> exn + decoded_token" where
  "call_verifyIdToken e t =
     (case t of
        None \<Rightarrow> Inl (FirebaseAuthError ''First argument to verifyIdToken() must be a Firebase ID token string.'')
      | Some tok \<Rightarrow> verifyIdToken e tok)"

definition no_token :: response where
  "no_token = json 401 [(''message'', BStr ''Unauthorized: No token provided'')]"

definition invalid_token :: response where
  "invalid_token = json 401 [(''message'', BStr ''Unauthorized: Invalid token'')]"

text \<open>
  \<^verbatim>\<open>verifyToken\<close>: \<open>Inl\<close> is the response that ends the request, \<open>Inr\<close> is
  \<^verbatim>\<open>req.user\<close> handed to \<^verbatim>\<open>next()\<close>. \<^verbatim>\<open>!authHeader\<close> holds for a missing header and
  for the empty string.
\<close>

definition verifyToken :: "env \<Rightarrow> request \<Rightarrow> (response + decoded_token) \<times> call list" where
  "verifyToken e req =
     (case authorization req of
        None \<Rightarrow> (Inl no_token, [])
      | Some authHeader \<Rightarrow>
          if authHeader = [] \<or> \<not> startsWith authHeader ''Bearer '' then (Inl no_token, [])
          else
            (let idToken = at_index (js_split (CHR '' '') authHeader) 1 in
             case call_verifyIdToken e idToken of
               Inl err \<Rightarrow> (Inl invalid_token, [VerifyIdToken idToken])
             | Inr decodedToken \<Rightarrow> (Inr decodedToken, [VerifyIdToken idToken])))"

section \<open>The document store\<close>

text \<open>
  The store is a MongoDB collection reached through the Node.js driver. It is not part
  of the repository; its operations are modelled from their documented behaviour, as
  far as the handlers use them. A filter is a list of fields with the values they must
  have. A stored value matches a queried one when the two are
  equal, or when the stored value is an array with the queried value among its elements;
  a field that is missing matches only the query for null. The filters of the handlers
  name top-level fields only. A failure of the transport to the store after the
  connection was made is not modelled (it would take the same \<^verbatim>\<open>catch\<close> branch as the
  errors below).
\<close>

fun value_matches :: "bson \<Rightarrow> bson \<Rightarrow> bool" where
  "value_matches (BArr xs) q = (BArr xs = q \<or> q \<in> set xs)"
| "value_matches v q = (v = q)"

definition field_matches :: "document \<Rightarrow> string \<times> bson \<Rightarrow> bool" where
  "field_matches d kq =
     (case map_of d (fst kq) of
        None \<Rightarrow> snd kq = BNull
      | Some v \<Rightarrow> value_matches v (snd kq))"

definition matches :: "document \<Rightarrow> document \<Rightarrow> bool" where
  "matches flt d = list_all (field_matches d) flt"

text \<open>\<^verbatim>\<open>db.collection("books")\<close> on the variable \<^verbatim>\<open>db\<close>.\<close>

definition db_undefined :: exn where
  "db_undefined = TypeError ''Cannot read properties of undefined (reading 'collection')''"

definition collection :: "store \<Rightarrow> exn + document list" where
  "collection db =
     (case db of
        None \<Rightarrow> Inl db_undefined
      | Some books \<Rightarrow> Inr books)"

text \<open>\<^verbatim>\<open>find(filter).toArray()\<close> and \<^verbatim>\<open>findOne(filter)\<close>, in insertion order.\<close>

definition find_docs :: "document \<Rightarrow> document list \<Rightarrow> document list" where
  "find_docs flt books = filter (matches flt) books"

fun findOne :: "document \<Rightarrow> document list \<Rightarrow> document option" where
  "findOne flt [] = None"
| "findOne flt (d # ds) = (if matches flt d then Some d else findOne flt ds)"

text \<open>
  \<^verbatim>\<open>insertOne\<close>: the driver gives a document without \<^verbatim>\<open>_id\<close> a generated identifier;
  a document that brings its own \<^verbatim>\<open>_id\<close> keeps it. The store refuses an array as
  \<^verbatim>\<open>_id\<close> and an \<^verbatim>\<open>_id\<close> that a stored document already has. The result is the new
  collection and \<^verbatim>\<open>insertedId\<close>, the \<^verbatim>\<open>_id\<close> of the stored document.
\<close>

definition inserted_id :: "env \<Rightarrow> document \<Rightarrow> bson" where
  "inserted_id e doc =
     (case map_of doc ''_id'' of
        None \<Rightarrow> BObjectId (createPk e)
      | Some v \<Rightarrow> v)"

definition with_id :: "env \<Rightarrow> document \<Rightarrow> document" where
  "with_id e doc =
     (case map_of doc ''_id'' of
        None \<Rightarrow> (''_id'', BObjectId (createPk e)) # doc
      | Some v \<Rightarrow> doc)"

fun is_array :: "bson \<Rightarrow> bool" where
  "is_array (BArr xs) = True"
| "is_array v = False"

definition doc_id :: "document \<Rightarrow> bson option" where
  "doc_id d = map_of d ''_id''"

definition array_id_error :: exn where
  "array_id_error = MongoServerError ''can't use an array for _id''"

definition duplicate_key_error :: exn where
  "duplicate_key_error =
     MongoServerError ''E11000 duplicate key error collection: bookHeaven.books index: _id_''"

definition insertOne :: "env \<Rightarrow> document \<Rightarrow> document list \<Rightarrow> exn + (document list \<times> bson)" where
  "insertOne e doc books =
     (let insertedId = inserted_id e doc in
      if is_array insertedId then Inl array_id_error
      else if list_ex (\<lambda>d. doc_id d = Some insertedId) books then Inl duplicate_key_error
      else Inr (books @ [with_id e doc], insertedId))"

text \<open>
  \<^verbatim>\<open>updateOne(filter, { $set: fields })\<close> changes the first document that matches. A key
  of the \<^verbatim>\<open>$set\<close> is a path: the names between its dots lead into embedded documents,
  which are created where a name is missing, and into arrays by position, an array being
  padded with null up to a position past its end. A position is a decimal number without
  a leading zero. A path that leads through a value that is neither a document nor an
  array is an error, and so are a path with an empty name, a \<^verbatim>\<open>$set\<close> with two paths of
  which one begins the other, and a \<^verbatim>\<open>$set\<close> that would change \<^verbatim>\<open>_id\<close>.

  What the store does with a path that has a name beginning with \<^verbatim>\<open>$\<close> (its positional
  operators, which read the filter; other such names are treated differently by
  different versions) is left open: the collaborator \<open>operator_path\<close> gives the new
  value of the top-level field that the path begins with, or an error.

  The errors of a \<^verbatim>\<open>$set\<close> are taken to be raised when it is applied to a document; an
  empty \<^verbatim>\<open>$set\<close> changes nothing (before version 5.0 the store refused it). The result
  of \<^verbatim>\<open>updateOne\<close> is the new collection and \<^verbatim>\<open>matchedCount\<close>.
\<close>

definition path_of :: "string \<Rightarrow> string list" where
  "path_of key = js_split (CHR ''.'') key"

definition first_name :: "string \<Rightarrow> string" where
  "first_name key = takeWhile (\<lambda>c. c \<noteq> CHR ''.'') key"

fun operator_name :: "string \<Rightarrow> bool" where
  "operator_name [] = False"
| "operator_name (c # cs) = (c = CHR ''$'')"

definition plain_name :: "string \<Rightarrow> bool" where
  "plain_name k = (k \<noteq> [] \<and> CHR ''.'' \<notin> set k \<and> \<not> operator_name k)"

definition digit_value :: "char \<Rightarrow> nat option" where
  "digit_value c =
     (let n = (of_char c :: nat) in
      if 48 \<le> n \<and> n \<le> 57 then Some (n - 48) else None)"

fun decimal :: "string \<Rightarrow> nat \<Rightarrow> nat option" where
  "decimal [] acc = Some acc"
| "decimal (c # cs) acc =
     (case digit_value c of
        None \<Rightarrow> None
      | Some n \<Rightarrow> decimal cs (10 * acc + n))"

fun array_index :: "string \<Rightarrow> nat option" where
  "array_index [] = None"
| "array_index (c # cs) = (if c = CHR ''0'' \<and> cs \<noteq> [] then None else decimal (c # cs) 0)"

definition cannot_create_field :: exn where
  "cannot_create_field = MongoServerError ''Cannot create field in element''"

text \<open>
  \<open>set_path names v old\<close>: the value that takes the place of \<open>old\<close> when \<open>v\<close> is
  written at the end of the path \<open>names\<close> inside it.
\<close>

fun set_path :: "string list \<Rightarrow> bson \<Rightarrow> bson option \<Rightarrow> exn + bson" where
  "set_path [] v old = Inr v"
| "set_path (k # ks) v None =
     (case set_path ks v None of
        Inl err \<Rightarrow> Inl err
      | Inr sub \<Rightarrow> Inr (BObj [(k, sub)]))"
| "set_path (k # ks) v (Some (BObj fs)) =
     (case set_path ks v (map_of fs k) of
        Inl err \<Rightarrow> Inl err
      | Inr sub \<Rightarrow> Inr (BObj (AList.update k sub fs)))"
| "set_path (k # ks) v (Some (BArr xs)) =
     (case array_index k of
        None \<Rightarrow> Inl cannot_create_field
      | Some i \<Rightarrow>
          (case set_path ks v (at_index xs i) of
             Inl err \<Rightarrow> Inl err
           | Inr sub \<Rightarrow>
               Inr (BArr (if i < length xs then xs[i := sub]
                          else xs @ replicate (i - length xs) BNull @ [sub]))))"
| "set_path (k # ks) v (Some other) = Inl cannot_create_field"

definition set_one :: "env \<Rightarrow> document \<Rightarrow> string \<times> bson \<Rightarrow> document \<Rightarrow> exn + document" where
  "set_one e flt kv d =
     (case path_of (fst kv) of
        [] \<Rightarrow> Inl (MongoServerError ''An empty update path is not valid.'')
      | k # ks \<Rightarrow>
          if list_ex (\<lambda>c. c = []) (k # ks)
          then Inl (MongoServerError ''The update path contains an empty field name, which is not allowed.'')
          else
            (case (if list_ex operator_name (k # ks)
                   then operator_path e flt (k # ks) (snd kv) (map_of d k)
                   else set_path ks (snd kv) (map_of d k)) of
               Inl err \<Rightarrow> Inl err
             | Inr new \<Rightarrow> Inr (AList.update k new d)))"

fun set_fields :: "env \<Rightarrow> document \<Rightarrow> document \<Rightarrow> document \<Rightarrow> exn + document" where
  "set_fields e flt [] d = Inr d"
| "set_fields e flt (kv # kvs) d =
     (case set_one e flt kv d of
        Inl err \<Rightarrow> Inl err
      | Inr d' \<Rightarrow> set_fields e flt kvs d')"

definition is_prefix :: "string list \<Rightarrow> string list \<Rightarrow> bool" where
  "is_prefix p q = (take (length p) q = p)"

fun conflicting :: "string list list \<Rightarrow> bool" where
  "conflicting [] = False"
| "conflicting (p # ps) = (list_ex (\<lambda>q. is_prefix p q \<or> is_prefix q p) ps \<or> conflicting ps)"

definition apply_set :: "env \<Rightarrow> document \<Rightarrow> document \<Rightarrow> document \<Rightarrow> exn + document" where
  "apply_set e flt flds d =
     (if conflicting (map (\<lambda>kv. path_of (fst kv)) flds)
      then Inl (MongoServerError ''Updating the path would create a conflict'')
      else
        (case set_fields e flt flds d of
           Inl err \<Rightarrow> Inl err
         | Inr d' \<Rightarrow>
             if doc_id d' = doc_id d then Inr d'
             else Inl (MongoServerError ''Performing an update on the path '_id' would modify the immutable field '_id' '')))"

fun updateOne :: "env \<Rightarrow> document \<Rightarrow> document \<Rightarrow> document list \<Rightarrow> exn + (document list \<times> nat)" where
  "updateOne e flt flds [] = Inr ([], 0)"
| "updateOne e flt flds (d # ds) =
     (if matches flt d then
        (case apply_set e flt flds d of
           Inl err \<Rightarrow> Inl err
         | Inr d' \<Rightarrow> Inr (d' # ds, 1))
      else
        (case updateOne e flt flds ds of
           Inl err \<Rightarrow> Inl err
         | Inr (ds', n) \<Rightarrow> Inr (d # ds', n)))"

text \<open>\<^verbatim>\<open>deleteOne(filter)\<close>: the new collection and \<^verbatim>\<open>deletedCount\<close>.\<close>

fun deleteOne :: "document \<Rightarrow> document list \<Rightarrow> document list \<times> nat" where
  "deleteOne flt [] = ([], 0)"
| "deleteOne flt (d # ds) =
     (if matches flt d then (ds, 1)
      else (case deleteOne flt ds of (ds', n) \<Rightarrow> (d # ds', n)))"

text \<open>
  \<^verbatim>\<open>new ObjectId(s)\<close> on a string: 24 hexadecimal digits give an identifier, whatever the
  case of the letters; anything else throws. (Earlier versions of the library also took
  a string of twelve bytes; which strings are accepted matters to no statement below,
  only that the others throw.)
\<close>

definition hex_value :: "char \<Rightarrow> nat option" where
  "hex_value c =
     (let n = (of_char c :: nat) in
      if 48 \<le> n \<and> n \<le> 57 then Some (n - 48)
      else if 97 \<le> n \<and> n \<le> 102 then Some (n - 87)
      else if 65 \<le> n \<and> n \<le> 70 then Some (n - 55)
      else None)"

fun hex_values :: "string \<Rightarrow> nat list option" where
  "hex_values [] = Some []"
| "hex_values (c # cs) =
     (case hex_value c of
        None \<Rightarrow> None
      | Some n \<Rightarrow> (case hex_values cs of None \<Rightarrow> None | Some ns \<Rightarrow> Some (n # ns)))"

definition ObjectId :: "string \<Rightarrow> exn + nat list" where
  "ObjectId s =
     (if length s = 24 then
        (case hex_values s of
           Some ns \<Rightarrow> Inr ns
         | None \<Rightarrow> Inl (BSONError ''input must be a 24 character hex string, 12 byte Uint8Array, or an integer''))
      else Inl (BSONError ''input must be a 24 character hex string, 12 byte Uint8Array, or an integer''))"

text \<open>
  The store gives every document an \<^verbatim>\<open>_id\<close> that is not an array and that no other
  document of the collection has.
\<close>

definition unique_ids :: "document list \<Rightarrow> bool" where
  "unique_ids books =
     (distinct (map doc_id books) \<and>
      list_all (\<lambda>d. case doc_id d of None \<Rightarrow> False | Some i \<Rightarrow> \<not> is_array i) books)"

section \<open>The routes\<close>

text \<open>
  Every handler is one \<^verbatim>\<open>try\<close> block whose \<^verbatim>\<open>catch\<close> answers 500 with the message of
  the error. The block is modelled as an attempt: \<open>Inl\<close> is what was thrown, and
  \<open>guarded\<close> is the \<^verbatim>\<open>catch\<close>. The expressions are evaluated in the order of the
  source: in \<^verbatim>\<open>/book-details/:id\<close> the call \<^verbatim>\<open>db.collection("books")\<close> comes before the
  identifier is built, in the update and delete handlers the filter is built first.
\<close>

type_synonym attempt = "(exn + response) \<times> store \<times> call list"

definition guarded :: "attempt \<Rightarrow> result" where
  "guarded a =
     (case a of
        (Inl err, db, calls) \<Rightarrow> (json 500 [(''error'', BStr (err_message err))], db, calls)
      | (Inr res, db, calls) \<Rightarrow> (res, db, calls))"

text \<open>\<^verbatim>\<open>req.user.name || req.user.email\<close>: an empty name is falsy.\<close>

definition userName :: "decoded_token \<Rightarrow> string" where
  "userName u =
     (case name u of
        None \<Rightarrow> email u
      | Some n \<Rightarrow> if n = [] then email u else n)"

text \<open>
  The object literal of \<^verbatim>\<open>/add-book\<close>: the body spread first, then the three fields of
  the server, each replacing a field of that name.
\<close>

definition new_book :: "env \<Rightarrow> decoded_token \<Rightarrow> document \<Rightarrow> document" where
  "new_book e u b =
     AList.update ''createdAt'' (BDate (now e))
       (AList.update ''userName'' (BStr (userName u))
          (AList.update ''userEmail'' (BStr (email u)) b))"

definition add_book_try :: "env \<Rightarrow> decoded_token \<Rightarrow> document \<Rightarrow> store \<Rightarrow> attempt" where
  "add_book_try e u b db =
     (let book = new_book e u b in
      case collection db of
        Inl err \<Rightarrow> (Inl err, db, [])
      | Inr books \<Rightarrow>
          (case insertOne e book books of
             Inl err \<Rightarrow> (Inl err, db, [InsertOne book])
           | Inr (books', insertedId) \<Rightarrow>
               (Inr (json 200 [(''message'', BStr ''Book added successfully''), (''bookId'', insertedId)]),
                Some books', [InsertOne book])))"

definition all_books_try :: "store \<Rightarrow> attempt" where
  "all_books_try db =
     (case collection db of
        Inl err \<Rightarrow> (Inl err, db, [])
      | Inr books \<Rightarrow>
          (Inr \<lparr>status = 200, content = Json (BArr (map BObj (find_docs [] books)))\<rparr>, db, [Find []]))"

definition book_details_try :: "string \<Rightarrow> store \<Rightarrow> attempt" where
  "book_details_try ident db =
     (case collection db of
        Inl err \<Rightarrow> (Inl err, db, [])
      | Inr books \<Rightarrow>
          (case ObjectId ident of
             Inl err \<Rightarrow> (Inl err, db, [])
           | Inr oid \<Rightarrow>
               (let flt = [(''_id'', BObjectId oid)] in
                case findOne flt books of
                  None \<Rightarrow> (Inr (json 404 [(''message'', BStr ''Book not found'')]), db, [FindOne flt])
                | Some book \<Rightarrow> (Inr \<lparr>status = 200, content = Json (BObj book)\<rparr>, db, [FindOne flt]))))"

definition my_books_try :: "decoded_token \<Rightarrow> store \<Rightarrow> attempt" where
  "my_books_try u db =
     (case collection db of
        Inl err \<Rightarrow> (Inl err, db, [])
      | Inr books \<Rightarrow>
          (let flt = [(''userEmail'', BStr (email u))] in
           (Inr \<lparr>status = 200, content = Json (BArr (map BObj (find_docs flt books)))\<rparr>, db, [Find flt])))"

definition not_found_or_unauthorized :: response where
  "not_found_or_unauthorized = json 404 [(''message'', BStr ''Book not found or unauthorized'')]"

definition update_book_try :: "env \<Rightarrow> decoded_token \<Rightarrow> string \<Rightarrow> document \<Rightarrow> store \<Rightarrow> attempt" where
  "update_book_try e u ident b db =
     (case ObjectId ident of
        Inl err \<Rightarrow> (Inl err, db, [])
      | Inr oid \<Rightarrow>
          (let flt = [(''_id'', BObjectId oid), (''userEmail'', BStr (email u))] in
           case collection db of
             Inl err \<Rightarrow> (Inl err, db, [])
           | Inr books \<Rightarrow>
               (case updateOne e flt b books of
                  Inl err \<Rightarrow> (Inl err, db, [UpdateOne flt b])
                | Inr (books', matchedCount) \<Rightarrow>
                    if matchedCount = 0 then (Inr not_found_or_unauthorized, Some books', [UpdateOne flt b])
                    else (Inr (json 200 [(''message'', BStr ''Book updated successfully'')]),
                          Some books', [UpdateOne flt b]))))"

definition delete_book_try :: "decoded_token \<Rightarrow> string \<Rightarrow> store \<Rightarrow> attempt" where
  "delete_book_try u ident db =
     (case ObjectId ident of
        Inl err \<Rightarrow> (Inl err, db, [])
      | Inr oid \<Rightarrow>
          (let flt = [(''_id'', BObjectId oid), (''userEmail'', BStr (email u))] in
           case collection db of
             Inl err \<Rightarrow> (Inl err, db, [])
           | Inr books \<Rightarrow>
               (case deleteOne flt books of
                  (books', deletedCount) \<Rightarrow>
                    if deletedCount = 0 then (Inr not_found_or_unauthorized, Some books', [DeleteOne flt])
                    else (Inr (json 200 [(''message'', BStr ''Book deleted successfully'')]),
                          Some books', [DeleteOne flt]))))"

text \<open>
  The route table. \<^verbatim>\<open>/\<close> and \<^verbatim>\<open>/all-books\<close> are registered without \<^verbatim>\<open>verifyToken\<close>;
  on the other routes \<^verbatim>\<open>verifyToken\<close> runs first and the handler runs only when it
  called \<^verbatim>\<open>next()\<close>, with \<^verbatim>\<open>req.user\<close> set.
\<close>

fun protected :: "route \<Rightarrow> bool" where
  "protected Liveness = False"
| "protected AllBooks = False"
| "protected r = True"

definition with_auth :: "env \<Rightarrow> request \<Rightarrow> store \<Rightarrow> (decoded_token \<Rightarrow> result) \<Rightarrow> result" where
  "with_auth e req db h =
     (case verifyToken e req of
        (Inl res, calls) \<Rightarrow> (res, db, calls)
      | (Inr u, calls) \<Rightarrow>
          (case h u of (res, db', calls') \<Rightarrow> (res, db', calls @ calls')))"

definition serve :: "env \<Rightarrow> store \<Rightarrow> request \<Rightarrow> result" where
  "serve e db req =
     (case route req of
        Liveness \<Rightarrow> (\<lparr>status = 200, content = Text ''Express server is running!''\<rparr>, db, [])
      | AddBook \<Rightarrow> with_auth e req db (\<lambda>u. guarded (add_book_try e u (body req) db))
      | AllBooks \<Rightarrow> guarded (all_books_try db)
      | BookDetails ident \<Rightarrow> with_auth e req db (\<lambda>u. guarded (book_details_try ident db))
      | MyBooks \<Rightarrow> with_auth e req db (\<lambda>u. guarded (my_books_try u db))
      | UpdateBook ident \<Rightarrow> with_auth e req db (\<lambda>u. guarded (update_book_try e u ident (body req) db))
      | DeleteBook ident \<Rightarrow> with_auth e req db (\<lambda>u. guarded (delete_book_try u ident db)))"

section \<open>Sample collaborators and requests\<close>

text \<open>
  An identity provider that knows two tokens, used where a statement is applied to a
  concrete request.
\<close>

definition idp0 :: "string \<Rightarrow> exn + decoded_token" where
  "idp0 t = (if t = ''tok-alice'' then Inr \<lparr>email = ''alice@x.com'', name = Some ''Alice''\<rparr>
             else if t = ''tok-bob'' then Inr \<lparr>email = ''bob@x.com'', name = None\<rparr>
             else Inl (FirebaseAuthError ''Decoding Firebase ID token failed''))"

definition alice_book_id :: "nat list" where
  "alice_book_id = [6, 4, 11, 7, 15, 0, 10, 1, 12, 2, 13, 3, 14, 4, 15, 5, 10, 6, 11, 7, 12, 8, 13, 9]"

definition env0 :: env where
  "env0 = \<lparr>verifyIdToken = idp0, now = 7, createPk = alice_book_id,
           operator_path = (\<lambda>flt names v old.
             Inl (MongoServerError ''The positional operator did not find the match needed from the query.''))\<rparr>"

text \<open>
  Sample records: the book that \<^verbatim>\<open>/add-book\<close> stores for the first token with the body
  \<^verbatim>\<open>{title: "A", author: "B"}\<close>, the same record after its \<^verbatim>\<open>userEmail\<close> was set to an
  array and to another address, and two books of the second user, one with an embedded
  document for its author.
\<close>

definition bob_book_id :: "nat list" where
  "bob_book_id = [5, 15, 1, 14, 2, 13, 3, 12, 4, 11, 5, 10, 6, 9, 7, 8, 8, 7, 9, 6, 10, 5, 11, 4]"

definition alice_book :: document where
  "alice_book = [(''_id'', BObjectId alice_book_id), (''title'', BStr ''A''), (''author'', BStr ''B''),
                 (''userEmail'', BStr ''alice@x.com''), (''userName'', BStr ''Alice''),
                 (''createdAt'', BDate 7)]"

definition shared_book :: document where
  "shared_book = [(''_id'', BObjectId alice_book_id), (''title'', BStr ''A''), (''author'', BStr ''B''),
                  (''userEmail'', BArr [BStr ''alice@x.com'', BStr ''bob@x.com'']),
                  (''userName'', BStr ''Alice''), (''createdAt'', BDate 7)]"

definition mallory_book :: document where
  "mallory_book = [(''_id'', BObjectId alice_book_id), (''title'', BStr ''A''), (''author'', BStr ''B''),
                   (''userEmail'', BStr ''mallory@x.com''), (''userName'', BStr ''Alice''),
                   (''createdAt'', BDate 7)]"

definition novel_id :: "nat list" where
  "novel_id = [10, 1, 11, 2, 12, 3, 13, 4, 14, 5, 15, 6, 0, 7, 1, 8, 2, 9, 3, 10, 4, 11, 5, 12]"

definition novel :: document where
  "novel = [(''_id'', BObjectId novel_id), (''title'', BStr ''N''),
            (''author'', BObj [(''name'', BStr ''B''), (''born'', BNum 1900)]),
            (''userEmail'', BStr ''bob@x.com''), (''userName'', BStr ''bob@x.com''),
            (''createdAt'', BDate 7)]"

definition bob_book :: document where
  "bob_book = [(''_id'', BObjectId bob_book_id), (''title'', BStr ''Z''),
               (''userEmail'', BStr ''bob@x.com''), (''userName'', BStr ''bob@x.com'')]"

section \<open>The authenticator: properties\<close>

lemma js_split_not_Nil: "js_split sep s \<noteq> []"
  by (induction s) (auto split: list.splits)

lemma js_split_hd: "hd (js_split sep s) = takeWhile (\<lambda>c. c \<noteq> sep) s"
  by (induction s) (auto split: list.splits simp: js_split_not_Nil)

lemma js_split_append:
  "sep \<notin> set a \<Longrightarrow> js_split sep (a @ sep # r) = a # js_split sep r"
  by (induction a) (auto split: list.splits)

lemma js_split_second:
  assumes "h = a @ sep # r" and "sep \<notin> set a"
  shows "at_index (js_split sep h) 1 = Some (takeWhile (\<lambda>c. c \<noteq> sep) r)"
proof -
  obtain w ws where w: "js_split sep r = w # ws"
    using js_split_not_Nil [of sep r] by (cases "js_split sep r") auto
  have "w = takeWhile (\<lambda>c. c \<noteq> sep) r"
    using js_split_hd [of sep r] w by simp
  then show ?thesis
    using assms w by (simp add: js_split_append at_index_def)
qed

lemma startsWith_Bearer:
  assumes "startsWith h ''Bearer ''"
  shows "h = ''Bearer'' @ CHR '' '' # drop 7 h"
proof -
  have "take (length ''Bearer '') h = ''Bearer ''"
    using assms by (simp only: startsWith_def)
  moreover have "length ''Bearer '' = 7" by simp
  ultimately have "take 7 h = ''Bearer ''" by (simp only:)
  then have "h = ''Bearer '' @ drop 7 h" by (metis append_take_drop_id)
  then show ?thesis by simp
qed

lemma idToken_of_header:
  assumes "startsWith h ''Bearer ''"
  shows "at_index (js_split (CHR '' '') h) 1 = Some (takeWhile (\<lambda>c. c \<noteq> CHR '' '') (drop 7 h))"
  by (rule js_split_second [OF startsWith_Bearer [OF assms]]) simp

lemma verifyToken_no_bearer:
  assumes "authorization req = None \<or> (\<exists>h. authorization req = Some h \<and> \<not> startsWith h ''Bearer '')"
  shows "verifyToken e req = (Inl no_token, [])"
  using assms by (auto simp: verifyToken_def)

text \<open>
  Claim C4. A request to a protected route without an \<^verbatim>\<open>Authorization\<close> header, or with
  one that does not start with \<^verbatim>\<open>Bearer \<close>, is answered 401; the log of outside calls is
  empty, so neither the identity provider nor the store was called, and the store is as
  it was.
\<close>

theorem missing_bearer_rejected:
  assumes "protected (route req)"
    and "authorization req = None \<or> (\<exists>h. authorization req = Some h \<and> \<not> startsWith h ''Bearer '')"
  shows "serve e db req = (no_token, db, []) \<and> status no_token = 401"
proof -
  have v: "verifyToken e req = (Inl no_token, [])"
    using assms(2) by (rule verifyToken_no_bearer)
  have "serve e db req = (no_token, db, [])"
    using assms(1) by (cases "route req") (simp_all add: serve_def with_auth_def v)
  then show ?thesis by (simp add: no_token_def json_def)
qed

theorem missing_bearer_rejected_witness:
  "serve env0 (Some []) \<lparr>route = MyBooks, authorization = None, body = []\<rparr> = (no_token, Some [], [])
   \<and> serve env0 (Some []) \<lparr>route = DeleteBook ''00'', authorization = Some ''Basic tok-alice'', body = []\<rparr>
       = (no_token, Some [], [])
   \<and> status no_token = 401"
  using missing_bearer_rejected [of "\<lparr>route = MyBooks, authorization = None, body = []\<rparr>" env0 "Some []"]
    missing_bearer_rejected [of "\<lparr>route = DeleteBook ''00'', authorization = Some ''Basic tok-alice'', body = []\<rparr>" env0 "Some []"]
  by (simp add: startsWith_def)

text \<open>
  Claim C10. When the header starts with \<^verbatim>\<open>Bearer \<close> the prefix check passes and the
  identity provider is called, first of all outside calls, with the second segment of the
  header split at spaces: the characters after \<^verbatim>\<open>Bearer \<close> up to the next space, what
  follows a second space being dropped. When that segment is empty (the header is
  \<^verbatim>\<open>Bearer \<close> alone, or a second space follows at once) and the provider refuses the
  empty token, the answer is 401 from the branch for a failed verification, and the
  store is not called.
\<close>

theorem bearer_token_is_second_segment:
  assumes "protected (route req)"
    and "authorization req = Some h"
    and "startsWith h ''Bearer ''"
  shows "at_index (js_split (CHR '' '') h) 1 = Some (takeWhile (\<lambda>c. c \<noteq> CHR '' '') (drop 7 h))
       \<and> (\<exists>res db' rest. serve e db req
             = (res, db', VerifyIdToken (Some (takeWhile (\<lambda>c. c \<noteq> CHR '' '') (drop 7 h))) # rest))
       \<and> (takeWhile (\<lambda>c. c \<noteq> CHR '' '') (drop 7 h) = [] \<longrightarrow> (\<exists>err. verifyIdToken e [] = Inl err) \<longrightarrow>
            serve e db req = (invalid_token, db, [VerifyIdToken (Some [])]) \<and> status invalid_token = 401)"
proof -
  let ?tok = "takeWhile (\<lambda>c. c \<noteq> CHR '' '') (drop 7 h)"
  have tok: "at_index (js_split (CHR '' '') h) 1 = Some ?tok"
    using assms(3) by (rule idToken_of_header)
  have ne: "h \<noteq> []" using assms(3) by (auto simp: startsWith_def)
  have v: "verifyToken e req =
             (case verifyIdToken e ?tok of
                Inl err \<Rightarrow> (Inl invalid_token, [VerifyIdToken (Some ?tok)])
              | Inr d \<Rightarrow> (Inr d, [VerifyIdToken (Some ?tok)]))"
    using assms(2,3) ne tok by (simp add: verifyToken_def call_verifyIdToken_def Let_def)
  obtain run where s: "serve e db req = with_auth e req db run"
    using assms(1) by (cases "route req") (simp_all add: serve_def)
  have first: "\<exists>res db' rest. serve e db req = (res, db', VerifyIdToken (Some ?tok) # rest)"
    unfolding s with_auth_def v by (auto split: sum.splits prod.splits)
  have rejected: "serve e db req = (invalid_token, db, [VerifyIdToken (Some [])])"
    if "?tok = []" and "\<exists>err. verifyIdToken e [] = Inl err"
    using that unfolding s with_auth_def v by auto
  show ?thesis using tok first rejected by (simp add: invalid_token_def json_def)
qed

theorem bearer_token_is_second_segment_witness:
  "serve env0 (Some []) \<lparr>route = MyBooks, authorization = Some ''Bearer '', body = []\<rparr>
     = (invalid_token, Some [], [VerifyIdToken (Some [])])
   \<and> at_index (js_split (CHR '' '') ''Bearer tok-alice and more'') 1 = Some ''tok-alice''"
  using bearer_token_is_second_segment [of "\<lparr>route = MyBooks, authorization = Some ''Bearer '', body = []\<rparr>" "''Bearer ''" env0 "Some []"]
    bearer_token_is_second_segment [of "\<lparr>route = MyBooks, authorization = Some ''Bearer tok-alice and more'', body = []\<rparr>" "''Bearer tok-alice and more''" env0 "Some []"]
  by (simp add: startsWith_def env0_def idp0_def)

section \<open>The store and the handlers: properties\<close>

lemma with_auth_ok:
  "verifyToken e req = (Inr u, calls) \<Longrightarrow>
   with_auth e req db h = (case h u of (res, db', calls') \<Rightarrow> (res, db', calls @ calls'))"
  by (simp add: with_auth_def)

lemma value_matches_scalar: "\<not> is_array v \<Longrightarrow> value_matches v q = (v = q)"
  by (cases v) auto





lemma matches_id_filter:
  assumes "doc_id d = Some i" and "\<not> is_array i"
  shows "matches [(''_id'', BObjectId oid)] d = (i = BObjectId oid)"
  using assms by (simp add: matches_def field_matches_def doc_id_def value_matches_scalar)

lemma findOne_absent:
  assumes "unique_ids books" and "\<forall>d\<in>set books. doc_id d \<noteq> Some (BObjectId oid)"
  shows "findOne [(''_id'', BObjectId oid)] books = None"
  using assms
proof (induction books)
  case Nil
  then show ?case by simp
next
  case (Cons d ds)
  then obtain i where i: "doc_id d = Some i" "\<not> is_array i"
    by (auto simp: unique_ids_def split: option.splits)
  have "\<not> matches [(''_id'', BObjectId oid)] d"
    using Cons.prems(2) i by (simp add: matches_id_filter)
  moreover have "unique_ids ds" using Cons.prems(1) by (simp add: unique_ids_def)
  ultimately show ?case using Cons by simp
qed

lemma findOne_present:
  assumes "unique_ids books" and "d \<in> set books" and "doc_id d = Some (BObjectId oid)"
  shows "findOne [(''_id'', BObjectId oid)] books = Some d"
  using assms
proof (induction books)
  case Nil
  then show ?case by simp
next
  case (Cons x xs)
  obtain i where i: "doc_id x = Some i" "\<not> is_array i"
    using Cons.prems(1) by (auto simp: unique_ids_def split: option.splits)
  have u: "unique_ids xs" using Cons.prems(1) by (simp add: unique_ids_def)
  show ?case
  proof (cases "x = d")
    case True
    then have "i = BObjectId oid" using Cons.prems(3) i(1) by simp
    then have "matches [(''_id'', BObjectId oid)] x"
      using matches_id_filter [OF i, of oid] by simp
    then show ?thesis using True by simp
  next
    case False
    then have d: "d \<in> set xs" using Cons.prems(2) by simp
    then have "doc_id d \<in> set (map doc_id xs)" by simp
    moreover have "doc_id x \<notin> set (map doc_id xs)"
      using Cons.prems(1) by (simp add: unique_ids_def)
    ultimately have "doc_id x \<noteq> doc_id d" by metis
    then have "\<not> matches [(''_id'', BObjectId oid)] x"
      using Cons.prems(3) i by (simp add: matches_id_filter)
    then show ?thesis using Cons.IH [OF u d Cons.prems(3)] by simp
  qed
qed

text \<open>
  Claim C5. For an authenticated request with a well-formed identifier,
  \<^verbatim>\<open>/book-details/:id\<close> answers with the record of the collection that has this
  identifier, whoever the caller \<open>u\<close> is and whatever the record's \<^verbatim>\<open>userEmail\<close>: the
  filter is \<^verbatim>\<open>_id\<close> alone. When no record has the identifier the answer is 404
  \<^verbatim>\<open>Book not found\<close>.
\<close>

theorem book_details_ignores_owner:
  assumes "route req = BookDetails ident"
    and "verifyToken e req = (Inr u, calls)"
    and "ObjectId ident = Inr oid"
    and "unique_ids books"
  shows "(\<forall>d\<in>set books. doc_id d = Some (BObjectId oid) \<longrightarrow>
            serve e (Some books) req
              = (\<lparr>status = 200, content = Json (BObj d)\<rparr>, Some books,
                 calls @ [FindOne [(''_id'', BObjectId oid)]]))
       \<and> ((\<forall>d\<in>set books. doc_id d \<noteq> Some (BObjectId oid)) \<longrightarrow>
            serve e (Some books) req
              = (json 404 [(''message'', BStr ''Book not found'')], Some books,
                 calls @ [FindOne [(''_id'', BObjectId oid)]]))"
proof -
  have s: "serve e (Some books) req =
             (case guarded (book_details_try ident (Some books)) of
                (res, db', calls') \<Rightarrow> (res, db', calls @ calls'))"
    using assms(1,2) by (simp add: serve_def with_auth_ok)
  have t: "book_details_try ident (Some books) =
             (case findOne [(''_id'', BObjectId oid)] books of
                None \<Rightarrow> (Inr (json 404 [(''message'', BStr ''Book not found'')]), Some books,
                         [FindOne [(''_id'', BObjectId oid)]])
              | Some book \<Rightarrow> (Inr \<lparr>status = 200, content = Json (BObj book)\<rparr>, Some books,
                              [FindOne [(''_id'', BObjectId oid)]]))"
    using assms(3) by (simp add: book_details_try_def collection_def Let_def)
  have found: "serve e (Some books) req
                 = (\<lparr>status = 200, content = Json (BObj d)\<rparr>, Some books,
                    calls @ [FindOne [(''_id'', BObjectId oid)]])"
    if "d \<in> set books" and "doc_id d = Some (BObjectId oid)" for d
    using findOne_present [OF assms(4) that] by (simp add: s t guarded_def)
  have absent: "serve e (Some books) req
                  = (json 404 [(''message'', BStr ''Book not found'')], Some books,
                     calls @ [FindOne [(''_id'', BObjectId oid)]])"
    if "\<forall>d\<in>set books. doc_id d \<noteq> Some (BObjectId oid)"
    using findOne_absent [OF assms(4) that] by (simp add: s t guarded_def)
  show ?thesis using found absent by blast
qed

theorem book_details_ignores_owner_witness:
  "serve env0 (Some [alice_book, bob_book])
     \<lparr>route = BookDetails ''64b7f0a1c2d3e4f5a6b7c8d9'', authorization = Some ''Bearer tok-bob'', body = []\<rparr>
   = (\<lparr>status = 200, content = Json (BObj alice_book)\<rparr>, Some [alice_book, bob_book],
      [VerifyIdToken (Some ''tok-bob''), FindOne [(''_id'', BObjectId alice_book_id)]])
   \<and> serve env0 (Some [bob_book])
     \<lparr>route = BookDetails ''64b7f0a1c2d3e4f5a6b7c8d9'', authorization = Some ''Bearer tok-bob'', body = []\<rparr>
   = (json 404 [(''message'', BStr ''Book not found'')], Some [bob_book],
      [VerifyIdToken (Some ''tok-bob''), FindOne [(''_id'', BObjectId alice_book_id)]])"
proof -
  let ?u = "\<lparr>email = ''bob@x.com'', name = None\<rparr>"
  let ?r = "\<lparr>route = BookDetails ''64b7f0a1c2d3e4f5a6b7c8d9'', authorization = Some ''Bearer tok-bob'', body = []\<rparr>"
  have r: "route ?r = BookDetails ''64b7f0a1c2d3e4f5a6b7c8d9''" by simp
  have v: "verifyToken env0 ?r = (Inr ?u, [VerifyIdToken (Some ''tok-bob'')])"
    by (simp add: verifyToken_def startsWith_def at_index_def call_verifyIdToken_def env0_def idp0_def)
  have o: "ObjectId ''64b7f0a1c2d3e4f5a6b7c8d9'' = Inr alice_book_id"
    by (simp add: ObjectId_def hex_value_def alice_book_id_def)
  have u2: "unique_ids [alice_book, bob_book]"
    by (simp add: unique_ids_def doc_id_def alice_book_def bob_book_def alice_book_id_def bob_book_id_def)
  have u1: "unique_ids [bob_book]"
    by (simp add: unique_ids_def doc_id_def bob_book_def)
  have a: "doc_id alice_book = Some (BObjectId alice_book_id)"
    by (simp add: doc_id_def alice_book_def)
  have b: "doc_id bob_book \<noteq> Some (BObjectId alice_book_id)"
    by (simp add: doc_id_def bob_book_def alice_book_id_def bob_book_id_def)
  show ?thesis
    using book_details_ignores_owner [OF r v o u2] book_details_ignores_owner [OF r v o u1] a b
    by simp
qed

lemma matches_email_filter:
  assumes "\<forall>xs. map_of d ''userEmail'' \<noteq> Some (BArr xs)"
  shows "matches [(''userEmail'', BStr m)] d = (map_of d ''userEmail'' = Some (BStr m))"
proof (cases "map_of d ''userEmail''")
  case None
  then show ?thesis by (simp add: matches_def field_matches_def)
next
  case (Some v)
  then have "\<not> is_array v" using assms by (cases v) auto
  then show ?thesis using Some by (simp add: matches_def field_matches_def value_matches_scalar)
qed

text \<open>
  On a collection where no record's \<^verbatim>\<open>userEmail\<close> is an array, which is every collection
  whose records carry the email of a token, \<^verbatim>\<open>/myBooks\<close> returns exactly the records whose
  \<^verbatim>\<open>userEmail\<close> is the caller's verified email, in the order of the collection.
\<close>

lemma my_books_exact:
  assumes "route req = MyBooks"
    and "verifyToken e req = (Inr u, calls)"
    and "\<forall>d\<in>set books. \<forall>xs. map_of d ''userEmail'' \<noteq> Some (BArr xs)"
  shows "serve e (Some books) req
           = (\<lparr>status = 200,
               content = Json (BArr (map BObj
                  (filter (\<lambda>d. map_of d ''userEmail'' = Some (BStr (email u))) books)))\<rparr>,
              Some books, calls @ [Find [(''userEmail'', BStr (email u))]])"
proof -
  have "filter (matches [(''userEmail'', BStr (email u))]) books
          = filter (\<lambda>d. map_of d ''userEmail'' = Some (BStr (email u))) books"
    using assms(3) by (intro filter_cong refl) (simp add: matches_email_filter)
  then show ?thesis
    using assms(1,2)
    by (simp add: serve_def with_auth_ok guarded_def my_books_try_def collection_def find_docs_def Let_def)
qed

subsection \<open>The paths of an update\<close>

lemma path_of_first:
  assumes "path_of key = k # ks"
  shows "k = first_name key"
  using js_split_hd [of "CHR ''.''" key] assms by (simp add: path_of_def first_name_def)

lemma path_of_plain: "CHR ''.'' \<notin> set key \<Longrightarrow> path_of key = [key]"
  unfolding path_of_def by (induction key) auto

lemma first_name_plain: "CHR ''.'' \<notin> set key \<Longrightarrow> first_name key = key"
  unfolding first_name_def by (induction key) auto

lemma set_one_plain:
  assumes "plain_name k"
  shows "set_one e flt (k, v) d = Inr (AList.update k v d)"
proof -
  have p: "path_of k = [k]" using assms by (simp add: plain_name_def path_of_plain)
  show ?thesis using assms by (simp add: set_one_def p plain_name_def)
qed

lemma set_one_frame:
  assumes "set_one e flt kv d = Inr d'" and "k \<noteq> first_name (fst kv)"
  shows "map_of d' k = map_of d k"
proof -
  obtain k0 ks where p: "path_of (fst kv) = k0 # ks"
    using js_split_not_Nil [of "CHR ''.''" "fst kv"] by (cases "path_of (fst kv)") (auto simp: path_of_def)
  have k0: "k0 = first_name (fst kv)" using p by (rule path_of_first)
  obtain new where "d' = AList.update k0 new d"
    using assms(1) by (auto simp: set_one_def p split: if_splits sum.splits)
  then show ?thesis using assms(2) k0 by (simp add: update_conv')
qed

lemma set_fields_frame:
  assumes "set_fields e flt flds d = Inr d'" and "\<forall>kv\<in>set flds. first_name (fst kv) \<noteq> k"
  shows "map_of d' k = map_of d k"
  using assms
proof (induction flds arbitrary: d)
  case Nil
  then show ?case by simp
next
  case (Cons kv kvs)
  then obtain d1 where one: "set_one e flt kv d = Inr d1" and rest: "set_fields e flt kvs d1 = Inr d'"
    by (auto split: sum.splits)
  have "map_of d1 k = map_of d k" using one Cons.prems(2) by (auto intro: set_one_frame)
  moreover have "map_of d' k = map_of d1 k" using Cons.IH [OF rest] Cons.prems(2) by simp
  ultimately show ?case by simp
qed

lemma no_conflict_first_name:
  assumes "\<not> list_ex (\<lambda>q. is_prefix [k] q \<or> is_prefix q [k]) (map (\<lambda>kv. path_of (fst kv)) flds)"
    and "kv \<in> set flds"
  shows "first_name (fst kv) \<noteq> k"
proof
  assume eq: "first_name (fst kv) = k"
  obtain k0 ks where p: "path_of (fst kv) = k0 # ks"
    using js_split_not_Nil [of "CHR ''.''" "fst kv"] by (cases "path_of (fst kv)") (auto simp: path_of_def)
  have "k0 = k" using path_of_first [OF p] eq by simp
  then have "is_prefix [k] (path_of (fst kv))" by (simp add: p is_prefix_def)
  then show False using assms by (auto simp: list_ex_iff)
qed

lemma set_fields_given:
  assumes "\<not> conflicting (map (\<lambda>kv. path_of (fst kv)) flds)"
    and "(k, v) \<in> set flds" and "plain_name k"
    and "set_fields e flt flds d = Inr d'"
  shows "map_of d' k = Some v"
  using assms
proof (induction flds arbitrary: d)
  case Nil
  then show ?case by simp
next
  case (Cons kv kvs)
  obtain d1 where one: "set_one e flt kv d = Inr d1" and rest: "set_fields e flt kvs d1 = Inr d'"
    using Cons.prems(4) by (auto split: sum.splits)
  have nc: "\<not> conflicting (map (\<lambda>kv. path_of (fst kv)) kvs)" using Cons.prems(1) by simp
  show ?case
  proof (cases "kv = (k, v)")
    case True
    have p: "path_of k = [k]" using Cons.prems(3) by (simp add: plain_name_def path_of_plain)
    have "d1 = AList.update k v d"
      using one True set_one_plain [OF Cons.prems(3), of e flt v d] by simp
    then have "map_of d1 k = Some v" by (simp add: update_conv')
    moreover have "\<not> list_ex (\<lambda>q. is_prefix [k] q \<or> is_prefix q [k]) (map (\<lambda>kv. path_of (fst kv)) kvs)"
      using Cons.prems(1) True p by simp
    then have "\<forall>kv'\<in>set kvs. first_name (fst kv') \<noteq> k"
      using no_conflict_first_name by blast
    then have "map_of d' k = map_of d1 k" using rest by (rule set_fields_frame [rotated])
    ultimately show ?thesis by simp
  next
    case False
    then have "(k, v) \<in> set kvs" using Cons.prems(2) by simp
    then show ?thesis using Cons.IH [OF nc _ Cons.prems(3) rest] by simp
  qed
qed

lemma apply_set_Inr:
  assumes "apply_set e flt flds d = Inr d'"
  shows "\<not> conflicting (map (\<lambda>kv. path_of (fst kv)) flds)"
    and "set_fields e flt flds d = Inr d'" and "doc_id d' = doc_id d"
  using assms by (auto simp: apply_set_def split: if_splits sum.splits)

lemma apply_set_one_plain:
  assumes "plain_name k"
  shows "apply_set e flt [(k, v)] d =
           (if doc_id (AList.update k v d) = doc_id d then Inr (AList.update k v d)
            else Inl (MongoServerError ''Performing an update on the path '_id' would modify the immutable field '_id' ''))"
  by (simp add: apply_set_def set_one_plain [OF assms])

text \<open>
  Claim C6 fails on the code, through the defect of claim C1. The owner's update with an
  array as \<^verbatim>\<open>userEmail\<close> in its body is accepted; the store's equality filter matches an
  array that contains the value, so \<^verbatim>\<open>/myBooks\<close> then returns the record to a caller whose
  email its \<^verbatim>\<open>userEmail\<close> is not equal to.
\<close>

theorem my_books_after_owner_update:
  "serve env0 (Some [alice_book])
     \<lparr>route = UpdateBook ''64b7f0a1c2d3e4f5a6b7c8d9'', authorization = Some ''Bearer tok-alice'',
      body = [(''userEmail'', BArr [BStr ''alice@x.com'', BStr ''bob@x.com''])]\<rparr>
   = (json 200 [(''message'', BStr ''Book updated successfully'')], Some [shared_book],
      [VerifyIdToken (Some ''tok-alice''),
       UpdateOne [(''_id'', BObjectId alice_book_id), (''userEmail'', BStr ''alice@x.com'')]
         [(''userEmail'', BArr [BStr ''alice@x.com'', BStr ''bob@x.com''])]])
   \<and> serve env0 (Some [shared_book])
     \<lparr>route = MyBooks, authorization = Some ''Bearer tok-bob'', body = []\<rparr>
   = (\<lparr>status = 200, content = Json (BArr [BObj shared_book])\<rparr>, Some [shared_book],
      [VerifyIdToken (Some ''tok-bob''), Find [(''userEmail'', BStr ''bob@x.com'')]])
   \<and> map_of shared_book ''userEmail'' \<noteq> Some (BStr ''bob@x.com'')"
  by (simp add: serve_def with_auth_def verifyToken_def startsWith_def at_index_def
      call_verifyIdToken_def env0_def idp0_def guarded_def update_book_try_def my_books_try_def
      collection_def find_docs_def ObjectId_def hex_value_def apply_set_one_plain plain_name_def
      doc_id_def matches_def field_matches_def shared_book_def alice_book_def alice_book_id_def)

text \<open>
  Claim C1 fails on the code. \<^verbatim>\<open>/add-book\<close> stores the creator's email from the token,
  but \<^verbatim>\<open>/update-book/:id\<close> hands the whole body to \<^verbatim>\<open>$set\<close>: the owner's own update
  with a \<^verbatim>\<open>userEmail\<close> in its body replaces the field of the stored record.
\<close>

theorem update_book_changes_owner:
  "serve env0 (Some [])
     \<lparr>route = AddBook, authorization = Some ''Bearer tok-alice'',
      body = [(''title'', BStr ''A''), (''author'', BStr ''B'')]\<rparr>
   = (json 200 [(''message'', BStr ''Book added successfully''), (''bookId'', BObjectId alice_book_id)],
      Some [alice_book],
      [VerifyIdToken (Some ''tok-alice''),
       InsertOne [(''title'', BStr ''A''), (''author'', BStr ''B''), (''userEmail'', BStr ''alice@x.com''),
                  (''userName'', BStr ''Alice''), (''createdAt'', BDate 7)]])
   \<and> serve env0 (Some [alice_book])
     \<lparr>route = UpdateBook ''64b7f0a1c2d3e4f5a6b7c8d9'', authorization = Some ''Bearer tok-alice'',
      body = [(''userEmail'', BStr ''mallory@x.com'')]\<rparr>
   = (json 200 [(''message'', BStr ''Book updated successfully'')], Some [mallory_book],
      [VerifyIdToken (Some ''tok-alice''),
       UpdateOne [(''_id'', BObjectId alice_book_id), (''userEmail'', BStr ''alice@x.com'')]
         [(''userEmail'', BStr ''mallory@x.com'')]])
   \<and> map_of alice_book ''userEmail'' = Some (BStr ''alice@x.com'')
   \<and> map_of mallory_book ''userEmail'' = Some (BStr ''mallory@x.com'')"
  by (simp add: serve_def with_auth_def verifyToken_def startsWith_def at_index_def
      call_verifyIdToken_def env0_def idp0_def guarded_def update_book_try_def add_book_try_def
      new_book_def userName_def insertOne_def with_id_def inserted_id_def collection_def
      ObjectId_def hex_value_def apply_set_one_plain plain_name_def doc_id_def
      matches_def field_matches_def mallory_book_def alice_book_def alice_book_id_def Let_def)

subsection \<open>Updates\<close>

lemma updateOne_matched:
  assumes "updateOne e flt flds books = Inr (books', n)" and "n \<noteq> 0"
  shows "\<exists>pre d d' post. books = pre @ d # post \<and> (\<forall>x\<in>set pre. \<not> matches flt x) \<and> matches flt d
           \<and> apply_set e flt flds d = Inr d' \<and> books' = pre @ d' # post"
  using assms
proof (induction books arbitrary: books')
  case Nil
  then show ?case by simp
next
  case (Cons x xs)
  show ?case
  proof (cases "matches flt x")
    case True
    then obtain x' where "apply_set e flt flds x = Inr x'" and "books' = x' # xs"
      using Cons.prems(1) by (auto split: sum.splits)
    then have "x # xs = [] @ x # xs \<and> (\<forall>y\<in>set []. \<not> matches flt y) \<and> matches flt x
           \<and> apply_set e flt flds x = Inr x' \<and> books' = [] @ x' # xs"
      using True by simp
    then show ?thesis by (intro exI)
  next
    case False
    then obtain ys where ys: "updateOne e flt flds xs = Inr (ys, n)" and b: "books' = x # ys"
      using Cons.prems(1) by (auto split: sum.splits)
    from Cons.IH [OF ys Cons.prems(2)] obtain pre d d' post where
      d: "xs = pre @ d # post" "\<forall>y\<in>set pre. \<not> matches flt y" "matches flt d"
         "apply_set e flt flds d = Inr d'" "ys = pre @ d' # post"
      by (elim exE conjE)
    have "x # xs = (x # pre) @ d # post \<and> (\<forall>y\<in>set (x # pre). \<not> matches flt y) \<and> matches flt d
           \<and> apply_set e flt flds d = Inr d' \<and> books' = (x # pre) @ d' # post"
      using d b False by simp
    then show ?thesis by (intro exI)
  qed
qed

lemma updateOne_first_match:
  assumes "\<forall>x\<in>set pre. \<not> matches flt x" and "matches flt d"
    and "apply_set e flt flds d = Inr d'"
  shows "updateOne e flt flds (pre @ d # post) = Inr (pre @ d' # post, 1)"
  using assms by (induction pre) auto

lemma ObjectId_cases: "(\<exists>oid. ObjectId s = Inr oid) \<or> (\<exists>m. ObjectId s = Inl (BSONError m))"
  by (auto simp: ObjectId_def split: option.splits)

text \<open>
  Claim C7, amended. A successful update changes one record, the first that matches the
  filter of identifier and owner, and the records before and after it are untouched. In
  that record a top-level field keeps its value unless a key of the body names it, as a
  plain name or as the name its dotted path begins with; a key of the body that is a
  plain name (no dot, no leading \<^verbatim>\<open>$\<close>) is a field of the record afterwards, with the
  body's value.
\<close>

theorem update_merges:
  assumes "route req = UpdateBook ident"
    and "verifyToken e req = (Inr u, calls)"
    and "serve e (Some books) req = (res, db', cs)"
    and "status res = 200"
  shows "\<exists>oid pre d d' post.
           ObjectId ident = Inr oid
         \<and> books = pre @ d # post
         \<and> (\<forall>x\<in>set pre. \<not> matches [(''_id'', BObjectId oid), (''userEmail'', BStr (email u))] x)
         \<and> matches [(''_id'', BObjectId oid), (''userEmail'', BStr (email u))] d
         \<and> db' = Some (pre @ d' # post)
         \<and> (\<forall>k. k \<notin> first_name ` fst ` set (body req) \<longrightarrow> map_of d' k = map_of d k)
         \<and> (\<forall>(k, v)\<in>set (body req). plain_name k \<longrightarrow> map_of d' k = Some v)
         \<and> res = json 200 [(''message'', BStr ''Book updated successfully'')]"
proof -
  have s: "(res, db', cs) =
             (case guarded (update_book_try e u ident (body req) (Some books)) of
                (r, d, c) \<Rightarrow> (r, d, calls @ c))"
    using assms(1,2,3) by (simp add: serve_def with_auth_ok)
  obtain oid where oid: "ObjectId ident = Inr oid"
    using ObjectId_cases [of ident] s assms(4)
    by (auto simp: update_book_try_def guarded_def json_def)
  let ?flt = "[(''_id'', BObjectId oid), (''userEmail'', BStr (email u))]"
  obtain books' n where u: "updateOne e ?flt (body req) books = Inr (books', n)"
    using s assms(4) oid
    by (cases "updateOne e ?flt (body req) books")
       (auto simp: update_book_try_def guarded_def json_def collection_def)
  have n: "n \<noteq> 0"
    using s assms(4) oid u
    by (auto simp: update_book_try_def guarded_def json_def collection_def Let_def
        not_found_or_unauthorized_def split: if_splits)
  have r: "res = json 200 [(''message'', BStr ''Book updated successfully'')]" and d: "db' = Some books'"
    using s oid u n by (auto simp: update_book_try_def guarded_def collection_def Let_def)
  from updateOne_matched [OF u n] obtain pre d d' post where
    p: "books = pre @ d # post" "\<forall>x\<in>set pre. \<not> matches ?flt x" "matches ?flt d"
       "apply_set e ?flt (body req) d = Inr d'" "books' = pre @ d' # post"
    by (elim exE conjE)
  note a = apply_set_Inr [OF p(4)]
  have keep: "map_of d' k = map_of d k" if "k \<notin> first_name ` fst ` set (body req)" for k
  proof -
    have "\<forall>kv\<in>set (body req). first_name (fst kv) \<noteq> k" using that by auto
    then show ?thesis using a(2) by (rule set_fields_frame [rotated])
  qed
  have given: "map_of d' k = Some v" if "(k, v) \<in> set (body req)" and "plain_name k" for k v
    using a(1) that a(2) by (rule set_fields_given)
  have "ObjectId ident = Inr oid
         \<and> books = pre @ d # post
         \<and> (\<forall>x\<in>set pre. \<not> matches ?flt x)
         \<and> matches ?flt d
         \<and> db' = Some (pre @ d' # post)
         \<and> (\<forall>k. k \<notin> first_name ` fst ` set (body req) \<longrightarrow> map_of d' k = map_of d k)
         \<and> (\<forall>(k, v)\<in>set (body req). plain_name k \<longrightarrow> map_of d' k = Some v)
         \<and> res = json 200 [(''message'', BStr ''Book updated successfully'')]"
    using oid p d r keep given by auto
  then show ?thesis by (intro exI)
qed

text \<open>
  Claim C7 as stated fails for a body with a dotted key. The update with the body
  \<^verbatim>\<open>{"author.name": "X"}\<close> succeeds and changes the field \<^verbatim>\<open>author\<close> of the record, which is
  not a key of the body, and the record gets no field named by the key.
\<close>

theorem update_dotted_key_counterexample:
  "serve env0 (Some [novel])
     \<lparr>route = UpdateBook ''a1b2c3d4e5f60718293a4b5c'', authorization = Some ''Bearer tok-bob'',
      body = [(''author.name'', BStr ''X'')]\<rparr>
   = (json 200 [(''message'', BStr ''Book updated successfully'')],
      Some [[(''_id'', BObjectId novel_id), (''title'', BStr ''N''),
             (''author'', BObj [(''name'', BStr ''X''), (''born'', BNum 1900)]),
             (''userEmail'', BStr ''bob@x.com''), (''userName'', BStr ''bob@x.com''),
             (''createdAt'', BDate 7)]],
      [VerifyIdToken (Some ''tok-bob''),
       UpdateOne [(''_id'', BObjectId novel_id), (''userEmail'', BStr ''bob@x.com'')]
         [(''author.name'', BStr ''X'')]])
   \<and> ''author'' \<notin> fst ` set [(''author.name'', BStr ''X'')]
   \<and> map_of novel ''author'' = Some (BObj [(''name'', BStr ''B''), (''born'', BNum 1900)])"
  by (simp add: serve_def with_auth_def verifyToken_def startsWith_def at_index_def
      call_verifyIdToken_def env0_def idp0_def guarded_def update_book_try_def
      collection_def ObjectId_def hex_value_def apply_set_def set_one_def path_of_def
      doc_id_def matches_def field_matches_def novel_def novel_id_def)

theorem update_merges_witness:
  "serve env0 (Some [bob_book, novel])
     \<lparr>route = UpdateBook ''a1b2c3d4e5f60718293a4b5c'', authorization = Some ''Bearer tok-bob'',
      body = [(''title'', BStr ''C''), (''author.name'', BStr ''X'')]\<rparr>
   = (json 200 [(''message'', BStr ''Book updated successfully'')],
      Some [bob_book,
            [(''_id'', BObjectId novel_id), (''title'', BStr ''C''),
             (''author'', BObj [(''name'', BStr ''X''), (''born'', BNum 1900)]),
             (''userEmail'', BStr ''bob@x.com''), (''userName'', BStr ''bob@x.com''),
             (''createdAt'', BDate 7)]],
      [VerifyIdToken (Some ''tok-bob''),
       UpdateOne [(''_id'', BObjectId novel_id), (''userEmail'', BStr ''bob@x.com'')]
         [(''title'', BStr ''C''), (''author.name'', BStr ''X'')]])
   \<and> (\<exists>pre d d' post.
         [bob_book, novel] = pre @ d # post
       \<and> (\<forall>k. k \<notin> {''title'', ''author''} \<longrightarrow> map_of d' k = map_of d k)
       \<and> map_of d' ''title'' = Some (BStr ''C''))"
proof -
  let ?u = "\<lparr>email = ''bob@x.com'', name = None\<rparr>"
  let ?b = "[(''title'', BStr ''C''), (''author.name'', BStr ''X'')]"
  let ?r = "\<lparr>route = UpdateBook ''a1b2c3d4e5f60718293a4b5c'', authorization = Some ''Bearer tok-bob'',
      body = ?b\<rparr>"
  let ?after = "[(''_id'', BObjectId novel_id), (''title'', BStr ''C''),
             (''author'', BObj [(''name'', BStr ''X''), (''born'', BNum 1900)]),
             (''userEmail'', BStr ''bob@x.com''), (''userName'', BStr ''bob@x.com''),
             (''createdAt'', BDate 7)]"
  let ?calls = "[VerifyIdToken (Some ''tok-bob''),
       UpdateOne [(''_id'', BObjectId novel_id), (''userEmail'', BStr ''bob@x.com'')] ?b]"
  have r: "route ?r = UpdateBook ''a1b2c3d4e5f60718293a4b5c''" by simp
  have v: "verifyToken env0 ?r = (Inr ?u, [VerifyIdToken (Some ''tok-bob'')])"
    by (simp add: verifyToken_def startsWith_def at_index_def call_verifyIdToken_def env0_def idp0_def)
  have s: "serve env0 (Some [bob_book, novel]) ?r
             = (json 200 [(''message'', BStr ''Book updated successfully'')], Some [bob_book, ?after], ?calls)"
    by (simp add: serve_def with_auth_def v guarded_def update_book_try_def collection_def
        ObjectId_def hex_value_def apply_set_def set_one_def path_of_def is_prefix_def
        doc_id_def Let_def matches_def field_matches_def bob_book_def novel_def novel_id_def
        bob_book_id_def)
  have ok: "status (json 200 [(''message'', BStr ''Book updated successfully'')]) = 200"
    by (simp add: json_def)
  have names: "first_name ''title'' = ''title''" "first_name ''author.name'' = ''author''"
    by (simp_all add: first_name_def)
  have plain: "plain_name ''title''" by (simp add: plain_name_def)
  from update_merges [OF r v s ok] obtain oid pre d d' post where
    w: "[bob_book, novel] = pre @ d # post"
       "\<forall>k. k \<notin> first_name ` fst ` set (body ?r) \<longrightarrow> map_of d' k = map_of d k"
       "\<forall>(k, v)\<in>set (body ?r). plain_name k \<longrightarrow> map_of d' k = Some v"
    by (elim exE conjE)
  have "[bob_book, novel] = pre @ d # post
       \<and> (\<forall>k. k \<notin> {''title'', ''author''} \<longrightarrow> map_of d' k = map_of d k)
       \<and> map_of d' ''title'' = Some (BStr ''C'')"
    using w names plain by simp
  then have "\<exists>pre d d' post.
         [bob_book, novel] = pre @ d # post
       \<and> (\<forall>k. k \<notin> {''title'', ''author''} \<longrightarrow> map_of d' k = map_of d k)
       \<and> map_of d' ''title'' = Some (BStr ''C'')"
    by (intro exI)
  then show ?thesis using s by simp
qed

text \<open>
  An update does succeed when a record matches and the keys of the body are plain names,
  all different and none of them \<^verbatim>\<open>_id\<close>.
\<close>

lemma set_fields_plain:
  assumes "list_all plain_name (map fst flds)"
  shows "\<exists>d'. set_fields e flt flds d = Inr d'"
  using assms
proof (induction flds arbitrary: d)
  case Nil
  then show ?case by simp
next
  case (Cons kv kvs)
  obtain k v where kv: "kv = (k, v)" by (cases kv)
  have "set_one e flt kv d = Inr (AList.update k v d)"
    using Cons.prems kv by (simp add: set_one_plain)
  then show ?case using Cons by simp
qed

lemma plain_names_no_conflict:
  assumes "list_all plain_name ks" and "distinct ks"
  shows "\<not> conflicting (map path_of ks)"
  using assms
proof (induction ks)
  case Nil
  then show ?case by simp
next
  case (Cons k ks)
  have p: "path_of k = [k]" using Cons.prems(1) by (simp add: plain_name_def path_of_plain)
  have "\<forall>k'\<in>set ks. path_of k' = [k'] \<and> k' \<noteq> k"
    using Cons.prems by (auto simp: plain_name_def path_of_plain list_all_iff)
  then have "\<not> list_ex (\<lambda>q. is_prefix [k] q \<or> is_prefix q [k]) (map path_of ks)"
    by (auto simp: list_ex_iff is_prefix_def)
  then show ?case using Cons p by simp
qed

lemma update_succeeds:
  assumes "route req = UpdateBook ident"
    and "verifyToken e req = (Inr u, calls)"
    and "ObjectId ident = Inr oid"
    and "\<exists>d\<in>set books. matches [(''_id'', BObjectId oid), (''userEmail'', BStr (email u))] d"
    and "list_all plain_name (map fst (body req))"
    and "distinct (map fst (body req))"
    and "''_id'' \<notin> fst ` set (body req)"
  shows "fst (serve e (Some books) req) = json 200 [(''message'', BStr ''Book updated successfully'')]"
proof -
  let ?flt = "[(''_id'', BObjectId oid), (''userEmail'', BStr (email u))]"
  from assms(4) obtain pre d post where
    p: "books = pre @ d # post" "matches ?flt d" "\<forall>x\<in>set pre. \<not> matches ?flt x"
    using split_list_first_prop [of books "matches ?flt"] by blast
  obtain d' where d': "set_fields e ?flt (body req) d = Inr d'"
    using set_fields_plain [OF assms(5)] by blast
  have "\<forall>kv\<in>set (body req). first_name (fst kv) \<noteq> ''_id''"
  proof
    fix kv assume kv: "kv \<in> set (body req)"
    then have "plain_name (fst kv)" using assms(5) by (simp add: list_all_iff)
    then have "first_name (fst kv) = fst kv" by (simp add: plain_name_def first_name_plain)
    moreover have "fst kv \<noteq> ''_id''" using kv assms(7) by force
    ultimately show "first_name (fst kv) \<noteq> ''_id''" by simp
  qed
  then have "map_of d' ''_id'' = map_of d ''_id''" using d' by (rule set_fields_frame [rotated])
  moreover have "\<not> conflicting (map (\<lambda>kv. path_of (fst kv)) (body req))"
    using plain_names_no_conflict [OF assms(5,6)] by (simp add: comp_def)
  ultimately have "apply_set e ?flt (body req) d = Inr d'"
    using d' by (simp add: apply_set_def doc_id_def)
  then have "updateOne e ?flt (body req) books = Inr (pre @ d' # post, 1)"
    using p updateOne_first_match by simp
  then show ?thesis
    using assms(1,2,3)
    by (simp add: serve_def with_auth_ok update_book_try_def guarded_def collection_def Let_def)
qed

subsection \<open>Insertion\<close>

lemma new_book_userEmail: "map_of (new_book e u b) ''userEmail'' = Some (BStr (email u))"
  by (simp add: new_book_def update_conv')

lemma new_book_id: "map_of (new_book e u b) ''_id'' = map_of b ''_id''"
  by (simp add: new_book_def update_conv')

lemma with_id_lookup: "k \<noteq> ''_id'' \<Longrightarrow> map_of (with_id e doc) k = map_of doc k"
  by (simp add: with_id_def split: option.splits)

lemma with_id_inserted: "doc_id (with_id e doc) = Some (inserted_id e doc)"
  by (simp add: with_id_def inserted_id_def doc_id_def split: option.splits)

lemma insertOne_Inr:
  assumes "insertOne e doc books = Inr (books', i)"
  shows "books' = books @ [with_id e doc] \<and> doc_id (with_id e doc) = Some i \<and> \<not> is_array i
         \<and> \<not> list_ex (\<lambda>d. doc_id d = Some i) books"
proof -
  have "i = inserted_id e doc" and "books' = books @ [with_id e doc]"
    and "\<not> is_array (inserted_id e doc)"
    and "\<not> list_ex (\<lambda>d. doc_id d = Some (inserted_id e doc)) books"
    using assms by (simp_all add: insertOne_def Let_def split: if_splits)
  then show ?thesis by (simp add: with_id_inserted)
qed

text \<open>
  Claim C2, amended. Whatever the body of an authenticated \<^verbatim>\<open>/add-book\<close> request, a
  \<^verbatim>\<open>userEmail\<close> field included, the record handed to the store has the email of the decoded
  token as \<^verbatim>\<open>userEmail\<close>. When the body has no \<^verbatim>\<open>_id\<close> the record is stored under the
  generated identifier and the response carries that identifier as \<^verbatim>\<open>bookId\<close>, unless
  the identifier is already taken, which is answered 500 with nothing stored. (A body
  with an \<^verbatim>\<open>_id\<close> is stored under that \<^verbatim>\<open>_id\<close>, which is then the \<^verbatim>\<open>bookId\<close>; the
  store refuses it when it is an array or already taken.)
\<close>

theorem add_book_owner_from_token:
  assumes "route req = AddBook"
    and "verifyToken e req = (Inr u, calls)"
  shows "let book = new_book e u (body req);
             i = (case map_of (body req) ''_id'' of None \<Rightarrow> BObjectId (createPk e) | Some v \<Rightarrow> v);
             stored = (case map_of (body req) ''_id'' of None \<Rightarrow> (''_id'', i) # book | Some v \<Rightarrow> book)
         in map_of stored ''userEmail'' = Some (BStr (email u))
          \<and> doc_id stored = Some i
          \<and> serve e (Some books) req =
              (if is_array i
               then (json 500 [(''error'', BStr (err_message array_id_error))], Some books,
                     calls @ [InsertOne book])
               else if list_ex (\<lambda>d. doc_id d = Some i) books
               then (json 500 [(''error'', BStr (err_message duplicate_key_error))], Some books,
                     calls @ [InsertOne book])
               else (json 200 [(''message'', BStr ''Book added successfully''), (''bookId'', i)],
                     Some (books @ [stored]), calls @ [InsertOne book]))"
proof -
  let ?book = "new_book e u (body req)"
  let ?i = "case map_of (body req) ''_id'' of None \<Rightarrow> BObjectId (createPk e) | Some v \<Rightarrow> v"
  let ?stored = "case map_of (body req) ''_id'' of None \<Rightarrow> (''_id'', ?i) # ?book | Some v \<Rightarrow> ?book"
  have i: "inserted_id e ?book = ?i" by (simp add: inserted_id_def new_book_id)
  have st: "with_id e ?book = ?stored"
    by (simp add: with_id_def new_book_id split: option.splits)
  have owner: "map_of ?stored ''userEmail'' = Some (BStr (email u))"
    using with_id_lookup [of "''userEmail''" e ?book] by (simp add: st new_book_userEmail)
  have ident: "doc_id ?stored = Some ?i"
    using with_id_inserted [of e ?book] by (simp add: st i)
  have s: "serve e (Some books) req =
             (case guarded (add_book_try e u (body req) (Some books)) of
                (r, d, c) \<Rightarrow> (r, d, calls @ c))"
    using assms by (simp add: serve_def with_auth_ok)
  have ins: "insertOne e ?book books =
               (if is_array ?i then Inl array_id_error
                else if list_ex (\<lambda>d. doc_id d = Some ?i) books then Inl duplicate_key_error
                else Inr (books @ [?stored], ?i))"
    by (simp only: insertOne_def Let_def i st)
  have "serve e (Some books) req =
              (if is_array ?i
               then (json 500 [(''error'', BStr (err_message array_id_error))], Some books,
                     calls @ [InsertOne ?book])
               else if list_ex (\<lambda>d. doc_id d = Some ?i) books
               then (json 500 [(''error'', BStr (err_message duplicate_key_error))], Some books,
                     calls @ [InsertOne ?book])
               else (json 200 [(''message'', BStr ''Book added successfully''), (''bookId'', ?i)],
                     Some (books @ [?stored]), calls @ [InsertOne ?book]))"
    by (simp add: s add_book_try_def collection_def guarded_def ins Let_def)
  then show ?thesis using owner ident by (simp only: Let_def)
qed

text \<open>
  Claim C2 as stated fails for a body that brings its own \<^verbatim>\<open>_id\<close>: the record is stored
  under it and the response returns it, not an identifier generated by the store.
\<close>

theorem add_book_client_id_counterexample:
  "serve env0 (Some [])
     \<lparr>route = AddBook, authorization = Some ''Bearer tok-alice'',
      body = [(''_id'', BStr ''mine''), (''title'', BStr ''A'')]\<rparr>
   = (json 200 [(''message'', BStr ''Book added successfully''), (''bookId'', BStr ''mine'')],
      Some [[(''_id'', BStr ''mine''), (''title'', BStr ''A''), (''userEmail'', BStr ''alice@x.com''),
             (''userName'', BStr ''Alice''), (''createdAt'', BDate 7)]],
      [VerifyIdToken (Some ''tok-alice''),
       InsertOne [(''_id'', BStr ''mine''), (''title'', BStr ''A''), (''userEmail'', BStr ''alice@x.com''),
                  (''userName'', BStr ''Alice''), (''createdAt'', BDate 7)]])
   \<and> BStr ''mine'' \<noteq> BObjectId (createPk env0)"
  by (simp add: serve_def with_auth_def verifyToken_def startsWith_def at_index_def
      call_verifyIdToken_def env0_def idp0_def guarded_def add_book_try_def
      new_book_def userName_def insertOne_def with_id_def inserted_id_def collection_def
      doc_id_def Let_def)

theorem add_book_owner_from_token_witness:
  "serve env0 (Some [bob_book])
     \<lparr>route = AddBook, authorization = Some ''Bearer tok-alice'',
      body = [(''title'', BStr ''A''), (''userEmail'', BStr ''eve@x.com''), (''author'', BStr ''B'')]\<rparr>
   = (json 200 [(''message'', BStr ''Book added successfully''), (''bookId'', BObjectId alice_book_id)],
      Some [bob_book,
            [(''_id'', BObjectId alice_book_id), (''title'', BStr ''A''), (''userEmail'', BStr ''alice@x.com''),
             (''author'', BStr ''B''), (''userName'', BStr ''Alice''), (''createdAt'', BDate 7)]],
      [VerifyIdToken (Some ''tok-alice''),
       InsertOne [(''title'', BStr ''A''), (''userEmail'', BStr ''alice@x.com''), (''author'', BStr ''B''),
                  (''userName'', BStr ''Alice''), (''createdAt'', BDate 7)]])"
proof -
  let ?u = "\<lparr>email = ''alice@x.com'', name = Some ''Alice''\<rparr>"
  let ?r = "\<lparr>route = AddBook, authorization = Some ''Bearer tok-alice'',
      body = [(''title'', BStr ''A''), (''userEmail'', BStr ''eve@x.com''), (''author'', BStr ''B'')]\<rparr>"
  have r: "route ?r = AddBook" by simp
  have v: "verifyToken env0 ?r = (Inr ?u, [VerifyIdToken (Some ''tok-alice'')])"
    by (simp add: verifyToken_def startsWith_def at_index_def call_verifyIdToken_def env0_def idp0_def)
  have e: "now env0 = 7" "createPk env0 = alice_book_id" by (simp_all add: env0_def)
  show ?thesis
    using add_book_owner_from_token [OF r v, of "[bob_book]"]
    by (simp add: Let_def e new_book_def userName_def doc_id_def bob_book_def
        alice_book_id_def bob_book_id_def)
qed

section \<open>Error responses, response bodies and the identifiers of the store\<close>

lemma verifyToken_cases:
  "verifyToken e req = (Inl no_token, [])
   \<or> (\<exists>t. verifyToken e req = (Inl invalid_token, [VerifyIdToken t]))
   \<or> (\<exists>u t. verifyToken e req = (Inr u, [VerifyIdToken t]))"
  by (simp add: verifyToken_def Let_def split: option.splits sum.splits)

lemma with_auth_const:
  "with_auth e req db (\<lambda>u. (r, db, [])) =
     (case verifyToken e req of
        (Inl res, calls) \<Rightarrow> (res, db, calls)
      | (Inr u, calls) \<Rightarrow> (r, db, calls))"
  by (simp add: with_auth_def split: prod.splits sum.splits)

lemma malformed_id_serve:
  assumes "route req = BookDetails ident \<or> route req = UpdateBook ident \<or> route req = DeleteBook ident"
    and "ObjectId ident = Inl err"
  shows "serve e db req =
           with_auth e req db (\<lambda>u.
             (json 500 [(''error'', BStr (err_message
                 (if db = None \<and> route req = BookDetails ident then db_undefined else err)))], db, []))"
proof -
  have upd: "guarded (update_book_try e u ident b db) = (json 500 [(''error'', BStr (err_message err))], db, [])" for u b
    using assms(2) by (simp add: update_book_try_def guarded_def)
  have del: "guarded (delete_book_try u ident db) = (json 500 [(''error'', BStr (err_message err))], db, [])" for u
    using assms(2) by (simp add: delete_book_try_def guarded_def)
  have det: "guarded (book_details_try ident db)
               = (json 500 [(''error'', BStr (err_message (if db = None then db_undefined else err)))], db, [])"
    using assms(2) by (cases db) (simp_all add: book_details_try_def guarded_def collection_def)
  from assms(1) show ?thesis
  proof (elim disjE)
    assume "route req = BookDetails ident"
    then show ?thesis by (simp add: serve_def det)
  next
    assume "route req = UpdateBook ident"
    then show ?thesis by (simp add: serve_def upd)
  next
    assume "route req = DeleteBook ident"
    then show ?thesis by (simp add: serve_def del)
  qed
qed

text \<open>
  Claim C8. On the three routes with an \<^verbatim>\<open>:id\<close> parameter a malformed identifier never
  leaves the handler as an exception: the request is answered, with 401 when
  \<^verbatim>\<open>verifyToken\<close> refused it and otherwise with 500 and a JSON body whose \<^verbatim>\<open>error\<close> field
  is the message of what was thrown (the constructor's error, or on
  \<^verbatim>\<open>/book-details/:id\<close> the \<^verbatim>\<open>TypeError\<close> of an undefined \<^verbatim>\<open>db\<close>, which is raised
  first); the store is not called and is unchanged.
\<close>

theorem malformed_id_is_error_response:
  assumes "route req = BookDetails ident \<or> route req = UpdateBook ident \<or> route req = DeleteBook ident"
    and "ObjectId ident = Inl err"
  shows "\<exists>res cs. serve e db req = (res, db, cs)
           \<and> (status res = 401 \<or> status res = 500)
           \<and> has_message_or_error (content res)
           \<and> \<not> list_ex storage_call cs
           \<and> (\<forall>u calls. verifyToken e req = (Inr u, calls) \<longrightarrow>
                 cs = calls \<and>
                 res = json 500 [(''error'', BStr (err_message
                         (if db = None \<and> route req = BookDetails ident then db_undefined else err)))])"
proof -
  let ?r = "json 500 [(''error'', BStr (err_message
                         (if db = None \<and> route req = BookDetails ident then db_undefined else err)))]"
  have s: "serve e db req =
             (case verifyToken e req of
                (Inl res, calls) \<Rightarrow> (res, db, calls)
              | (Inr u, calls) \<Rightarrow> (?r, db, calls))"
    by (simp only: malformed_id_serve [OF assms] with_auth_const)
  have r: "status ?r = 500" "has_message_or_error (content ?r)"
    by (simp_all add: json_def has_message_or_error_def)
  have n: "status no_token = 401" "has_message_or_error (content no_token)"
    by (simp_all add: no_token_def json_def has_message_or_error_def)
  have i: "status invalid_token = 401" "has_message_or_error (content invalid_token)"
    by (simp_all add: invalid_token_def json_def has_message_or_error_def)
  consider (none) "verifyToken e req = (Inl no_token, [])"
    | (bad) t where "verifyToken e req = (Inl invalid_token, [VerifyIdToken t])"
    | (ok) u t where "verifyToken e req = (Inr u, [VerifyIdToken t])"
    using verifyToken_cases [of e req] by (elim disjE exE)
  then show ?thesis
  proof cases
    case none
    then have "serve e db req = (no_token, db, [])" by (simp add: s)
    then show ?thesis using n none by simp
  next
    case bad
    then have "serve e db req = (invalid_token, db, [VerifyIdToken t])" by (simp add: s)
    then show ?thesis using i bad by simp
  next
    case ok
    then have "serve e db req = (?r, db, [VerifyIdToken t])" by (simp add: s)
    then show ?thesis using r ok by simp
  qed
qed

theorem malformed_id_is_error_response_witness:
  "ObjectId ''not-an-id'' = Inl (BSONError ''input must be a 24 character hex string, 12 byte Uint8Array, or an integer'')
   \<and> serve env0 (Some [alice_book])
       \<lparr>route = DeleteBook ''not-an-id'', authorization = Some ''Bearer tok-alice'', body = []\<rparr>
     = (json 500 [(''error'', BStr ''input must be a 24 character hex string, 12 byte Uint8Array, or an integer'')],
        Some [alice_book], [VerifyIdToken (Some ''tok-alice'')])"
proof -
  let ?m = "''input must be a 24 character hex string, 12 byte Uint8Array, or an integer''"
  let ?u = "\<lparr>email = ''alice@x.com'', name = Some ''Alice''\<rparr>"
  let ?q = "\<lparr>route = DeleteBook ''not-an-id'', authorization = Some ''Bearer tok-alice'', body = []\<rparr>"
  have r: "route ?q = BookDetails ''not-an-id'' \<or> route ?q = UpdateBook ''not-an-id''
           \<or> route ?q = DeleteBook ''not-an-id''" by simp
  have o: "ObjectId ''not-an-id'' = Inl (BSONError ?m)" by (simp add: ObjectId_def)
  have v: "verifyToken env0 ?q = (Inr ?u, [VerifyIdToken (Some ''tok-alice'')])"
    by (simp add: verifyToken_def startsWith_def at_index_def call_verifyIdToken_def env0_def idp0_def)
  from malformed_id_is_error_response [OF r o, of env0 "Some [alice_book]"]
  obtain res cs where
    s: "serve env0 (Some [alice_book]) ?q = (res, Some [alice_book], cs)"
    and a: "\<forall>u calls. verifyToken env0 ?q = (Inr u, calls) \<longrightarrow>
                 cs = calls \<and>
                 res = json 500 [(''error'', BStr (err_message
                         (if Some [alice_book] = None \<and> route ?q = BookDetails ''not-an-id''
                          then db_undefined else BSONError ?m)))]"
    by (elim exE conjE)
  have "cs = [VerifyIdToken (Some ''tok-alice'')] \<and> res = json 500 [(''error'', BStr ?m)]"
    using a v by simp
  then show ?thesis using s o by simp
qed

lemma json_fields [simp]: "status (json c fs) = c" "content (json c fs) = Json (BObj fs)"
  by (simp_all add: json_def)

lemma with_auth_fst:
  "fst (with_auth e req db h) = no_token \<or> fst (with_auth e req db h) = invalid_token
   \<or> (\<exists>u. fst (with_auth e req db h) = fst (h u))"
proof -
  consider (none) "verifyToken e req = (Inl no_token, [])"
    | (bad) t where "verifyToken e req = (Inl invalid_token, [VerifyIdToken t])"
    | (ok) u t where "verifyToken e req = (Inr u, [VerifyIdToken t])"
    using verifyToken_cases [of e req] by (elim disjE exE)
  then show ?thesis
  proof cases
    case none
    then show ?thesis by (simp add: with_auth_def)
  next
    case bad
    then show ?thesis by (simp add: with_auth_def)
  next
    case ok
    then have "fst (with_auth e req db h) = fst (h u)"
      by (simp add: with_auth_def split: prod.splits)
    then show ?thesis by blast
  qed
qed

lemma add_book_reply:
  "has_message_or_error (content (fst (guarded (add_book_try e u b db))))"
  by (simp add: add_book_try_def guarded_def collection_def Let_def has_message_or_error_def
      split: option.splits sum.splits prod.splits)

lemma update_book_reply:
  "has_message_or_error (content (fst (guarded (update_book_try e u ident b db))))"
  by (simp add: update_book_try_def guarded_def collection_def Let_def has_message_or_error_def
      not_found_or_unauthorized_def split: option.splits sum.splits prod.splits)

lemma delete_book_reply:
  "has_message_or_error (content (fst (guarded (delete_book_try u ident db))))"
  by (simp add: delete_book_try_def guarded_def collection_def Let_def has_message_or_error_def
      not_found_or_unauthorized_def split: option.splits sum.splits prod.splits)

lemma all_books_reply:
  "(status (fst (guarded (all_books_try db))) = 500
      \<and> has_message_or_error (content (fst (guarded (all_books_try db)))))
   \<or> (status (fst (guarded (all_books_try db))) = 200
      \<and> (\<exists>docs. content (fst (guarded (all_books_try db))) = Json (BArr (map BObj docs))))"
  by (cases db) (auto simp: all_books_try_def guarded_def collection_def has_message_or_error_def)

lemma my_books_reply:
  "(status (fst (guarded (my_books_try u db))) = 500
      \<and> has_message_or_error (content (fst (guarded (my_books_try u db)))))
   \<or> (status (fst (guarded (my_books_try u db))) = 200
      \<and> (\<exists>docs. content (fst (guarded (my_books_try u db))) = Json (BArr (map BObj docs))))"
  by (cases db) (auto simp: my_books_try_def guarded_def collection_def has_message_or_error_def Let_def)

lemma book_details_reply:
  "(status (fst (guarded (book_details_try ident db))) \<noteq> 200
      \<and> has_message_or_error (content (fst (guarded (book_details_try ident db)))))
   \<or> (status (fst (guarded (book_details_try ident db))) = 200
      \<and> (\<exists>book. content (fst (guarded (book_details_try ident db))) = Json (BObj book)))"
  by (cases db; cases "ObjectId ident")
     (auto simp: book_details_try_def guarded_def collection_def has_message_or_error_def Let_def
        split: option.splits)

lemma rejected_reply:
  "has_message_or_error (content no_token)" "status no_token = 401"
  "has_message_or_error (content invalid_token)" "status invalid_token = 401"
  by (simp_all add: no_token_def invalid_token_def has_message_or_error_def)

text \<open>
  Claim C9, amended. On every route but \<^verbatim>\<open>/\<close> the body of the response is JSON. It is
  an object with a \<^verbatim>\<open>message\<close> or \<^verbatim>\<open>error\<close> field whenever the status is not 200, and
  on \<^verbatim>\<open>/add-book\<close>, \<^verbatim>\<open>/update-book/:id\<close> and \<^verbatim>\<open>/delete-book/:id\<close> for status 200 as
  well. The successful responses of \<^verbatim>\<open>/all-books\<close> and \<^verbatim>\<open>/myBooks\<close> are arrays of
  records and that of \<^verbatim>\<open>/book-details/:id\<close> is the record itself.
\<close>

theorem replies_are_json:
  assumes "route req \<noteq> Liveness"
    and "serve e db req = (res, db', cs)"
  shows "(\<exists>v. content res = Json v)
       \<and> (status res \<noteq> 200 \<longrightarrow> has_message_or_error (content res))
       \<and> (status res = 200 \<longrightarrow>
            (case route req of
               AllBooks \<Rightarrow> \<exists>docs. content res = Json (BArr (map BObj docs))
             | MyBooks \<Rightarrow> \<exists>docs. content res = Json (BArr (map BObj docs))
             | BookDetails ident \<Rightarrow> \<exists>book. content res = Json (BObj book)
             | _ \<Rightarrow> has_message_or_error (content res)))"
proof -
  have res: "res = fst (serve e db req)" using assms(2) by simp
  have j: "\<exists>v. content r = Json v" if "has_message_or_error (content r)" for r
    using that by (cases "content r") (auto simp: has_message_or_error_def)
  show ?thesis
  proof (cases "route req")
    case Liveness
    then show ?thesis using assms(1) by simp
  next
    case AddBook
    let ?h = "\<lambda>u. guarded (add_book_try e u (body req) db)"
    have "res = fst (with_auth e req db ?h)" using res AddBook by (simp add: serve_def)
    then have "has_message_or_error (content res)"
      using with_auth_fst [of e req db ?h] rejected_reply add_book_reply by auto
    then show ?thesis using AddBook j by simp
  next
    case AllBooks
    then have "res = fst (guarded (all_books_try db))" using res by (simp add: serve_def)
    then show ?thesis using AllBooks all_books_reply [of db] j by auto
  next
    case (BookDetails ident)
    let ?h = "\<lambda>u. guarded (book_details_try ident db)"
    have "res = fst (with_auth e req db ?h)" using res BookDetails by (simp add: serve_def)
    then have "res = no_token \<or> res = invalid_token \<or> res = fst (guarded (book_details_try ident db))"
      using with_auth_fst [of e req db ?h] by auto
    then show ?thesis using BookDetails rejected_reply book_details_reply [of ident db] j by auto
  next
    case MyBooks
    let ?h = "\<lambda>u. guarded (my_books_try u db)"
    have "res = fst (with_auth e req db ?h)" using res MyBooks by (simp add: serve_def)
    then consider "res = no_token" | "res = invalid_token"
      | u where "res = fst (guarded (my_books_try u db))"
      using with_auth_fst [of e req db ?h] by auto
    then show ?thesis
    proof cases
      case 1
      then show ?thesis using MyBooks rejected_reply j by auto
    next
      case 2
      then show ?thesis using MyBooks rejected_reply j by auto
    next
      case 3
      then show ?thesis using MyBooks my_books_reply [of u db] j by auto
    qed
  next
    case (UpdateBook ident)
    let ?h = "\<lambda>u. guarded (update_book_try e u ident (body req) db)"
    have "res = fst (with_auth e req db ?h)" using res UpdateBook by (simp add: serve_def)
    then have "has_message_or_error (content res)"
      using with_auth_fst [of e req db ?h] rejected_reply update_book_reply by auto
    then show ?thesis using UpdateBook j by simp
  next
    case (DeleteBook ident)
    let ?h = "\<lambda>u. guarded (delete_book_try u ident db)"
    have "res = fst (with_auth e req db ?h)" using res DeleteBook by (simp add: serve_def)
    then have "has_message_or_error (content res)"
      using with_auth_fst [of e req db ?h] rejected_reply delete_book_reply by auto
    then show ?thesis using DeleteBook j by simp
  qed
qed

text \<open>
  Claim C9 as stated fails on the successful response of \<^verbatim>\<open>/all-books\<close>: the body is the
  array of records, which has no \<^verbatim>\<open>message\<close> or \<^verbatim>\<open>error\<close> field.
\<close>

theorem all_books_reply_counterexample:
  "serve env0 (Some [alice_book]) \<lparr>route = AllBooks, authorization = None, body = []\<rparr>
     = (\<lparr>status = 200, content = Json (BArr [BObj alice_book])\<rparr>, Some [alice_book], [Find []])
   \<and> \<not> has_message_or_error (Json (BArr [BObj alice_book]))"
  by (simp add: serve_def guarded_def all_books_try_def collection_def find_docs_def matches_def
      has_message_or_error_def)

theorem replies_are_json_witness:
  "serve env0 (Some [alice_book]) \<lparr>route = AllBooks, authorization = None, body = []\<rparr>
     = (\<lparr>status = 200, content = Json (BArr [BObj alice_book])\<rparr>, Some [alice_book], [Find []])
   \<and> serve env0 None \<lparr>route = AllBooks, authorization = None, body = []\<rparr>
     = (json 500 [(''error'', BStr (err_message db_undefined))], None, [])
   \<and> has_message_or_error (content (json 500 [(''error'', BStr (err_message db_undefined))]))"
proof -
  let ?q = "\<lparr>route = AllBooks, authorization = None, body = []\<rparr>"
  have r: "route ?q \<noteq> Liveness" by simp
  have s1: "serve env0 (Some [alice_book]) ?q
              = (\<lparr>status = 200, content = Json (BArr [BObj alice_book])\<rparr>, Some [alice_book], [Find []])"
    by (simp add: serve_def guarded_def all_books_try_def collection_def find_docs_def matches_def)
  have s2: "serve env0 None ?q = (json 500 [(''error'', BStr (err_message db_undefined))], None, [])"
    by (simp add: serve_def guarded_def all_books_try_def collection_def)
  show ?thesis
    using replies_are_json [OF r s1] replies_are_json [OF r s2] s1 s2 by simp
qed

lemma unique_ids_by_ids:
  "unique_ids books =
     (distinct (map doc_id books)
      \<and> (\<forall>i\<in>set (map doc_id books). case i of None \<Rightarrow> False | Some v \<Rightarrow> \<not> is_array v))"
  by (auto simp: unique_ids_def list_all_iff)

lemma insertOne_unique_ids:
  assumes "insertOne e doc books = Inr (books', i)" and "unique_ids books"
  shows "unique_ids books'"
proof -
  note p = insertOne_Inr [OF assms(1)]
  have "doc_id (with_id e doc) \<notin> set (map doc_id books)"
    using p by (auto simp: list_ex_iff)
  then show ?thesis
    using p assms(2) by (simp add: unique_ids_def)
qed

lemma updateOne_ids:
  "updateOne e flt flds books = Inr (books', n) \<Longrightarrow> map doc_id books' = map doc_id books"
proof (induction books arbitrary: books')
  case Nil
  then show ?case by simp
next
  case (Cons x xs)
  show ?case
  proof (cases "matches flt x")
    case True
    then show ?thesis
      using Cons.prems by (auto simp: apply_set_def split: if_splits sum.splits)
  next
    case False
    then obtain ys where "updateOne e flt flds xs = Inr (ys, n)" and "books' = x # ys"
      using Cons.prems by (auto split: sum.splits)
    then show ?thesis using Cons.IH by simp
  qed
qed

lemma updateOne_unique_ids:
  assumes "updateOne e flt flds books = Inr (books', n)" and "unique_ids books"
  shows "unique_ids books'"
proof -
  have "map doc_id books' = map doc_id books" using assms(1) by (rule updateOne_ids)
  then show ?thesis using assms(2) by (simp add: unique_ids_by_ids)
qed

lemma deleteOne_subset: "set (fst (deleteOne flt books)) \<subseteq> set books"
  by (induction books) (auto split: prod.splits)

lemma deleteOne_distinct:
  "distinct (map doc_id books) \<Longrightarrow> distinct (map doc_id (fst (deleteOne flt books)))"
proof (induction books)
  case Nil
  then show ?case by simp
next
  case (Cons x xs)
  show ?case
  proof (cases "matches flt x")
    case True
    then show ?thesis using Cons.prems by simp
  next
    case False
    obtain ys n where d: "deleteOne flt xs = (ys, n)" by (cases "deleteOne flt xs")
    have "doc_id x \<notin> doc_id ` set xs" using Cons.prems by simp
    then have "doc_id x \<notin> doc_id ` set ys"
      using deleteOne_subset [of flt xs] d by auto
    moreover have "distinct (map doc_id ys)"
      using Cons d by simp
    ultimately show ?thesis using False d by simp
  qed
qed

lemma deleteOne_unique_ids:
  assumes "unique_ids books"
  shows "unique_ids (fst (deleteOne flt books))"
proof -
  have "distinct (map doc_id (fst (deleteOne flt books)))"
    using assms by (simp add: unique_ids_def deleteOne_distinct)
  moreover have "\<forall>d\<in>set (fst (deleteOne flt books)). case doc_id d of None \<Rightarrow> False | Some i \<Rightarrow> \<not> is_array i"
    using assms deleteOne_subset [of flt books] by (auto simp: unique_ids_def list_all_iff)
  ultimately show ?thesis by (simp add: unique_ids_def list_all_iff)
qed

lemma with_auth_store:
  "fst (snd (with_auth e req db h)) = db \<or> (\<exists>u. fst (snd (with_auth e req db h)) = fst (snd (h u)))"
proof -
  consider (none) "verifyToken e req = (Inl no_token, [])"
    | (bad) t where "verifyToken e req = (Inl invalid_token, [VerifyIdToken t])"
    | (ok) u t where "verifyToken e req = (Inr u, [VerifyIdToken t])"
    using verifyToken_cases [of e req] by (elim disjE exE)
  then show ?thesis
  proof cases
    case none
    then show ?thesis by (simp add: with_auth_def)
  next
    case bad
    then show ?thesis by (simp add: with_auth_def)
  next
    case ok
    then have "fst (snd (with_auth e req db h)) = fst (snd (h u))"
      by (simp add: with_auth_def split: prod.splits)
    then show ?thesis by blast
  qed
qed

text \<open>
  Every request leaves a connected store connected and its identifiers unique, so the
  assumption on identifiers made for \<^verbatim>\<open>/book-details/:id\<close> holds in every state that the
  routes reach from the empty collection.
\<close>

lemma serve_preserves_unique_ids:
  assumes "unique_ids books" and "serve e (Some books) req = (res, db', cs)"
  shows "\<exists>books'. db' = Some books' \<and> unique_ids books'"
proof -
  let ?ok = "\<lambda>d. \<exists>books'. d = Some books' \<and> unique_ids books'"
  have db': "db' = fst (snd (serve e (Some books) req))" using assms(2) by simp
  have same: "?ok (Some books)" using assms(1) by simp
  have add: "?ok (fst (snd (guarded (add_book_try e u b (Some books)))))" for u b
  proof (cases "insertOne e (new_book e u b) books")
    case (Inl err)
    then show ?thesis
      using assms(1) by (simp add: add_book_try_def guarded_def collection_def Let_def)
  next
    case r: (Inr r)
    obtain books' i where "r = (books', i)" by (cases r)
    then have ins: "insertOne e (new_book e u b) books = Inr (books', i)" using r by simp
    have "unique_ids books'" using ins assms(1) by (rule insertOne_unique_ids)
    then show ?thesis
      using ins by (simp add: add_book_try_def guarded_def collection_def Let_def)
  qed
  have upd: "?ok (fst (snd (guarded (update_book_try e u ident b (Some books)))))" for u ident b
  proof (cases "ObjectId ident")
    case (Inl err)
    then show ?thesis using assms(1) by (simp add: update_book_try_def guarded_def)
  next
    case (Inr oid)
    let ?flt = "[(''_id'', BObjectId oid), (''userEmail'', BStr (email u))]"
    show ?thesis
    proof (cases "updateOne e ?flt b books")
      case (Inl err)
      then show ?thesis
        using assms(1) Inr by (simp add: update_book_try_def guarded_def collection_def Let_def)
    next
      case r: (Inr r)
      obtain books' n where "r = (books', n)" by (cases r)
      then have u: "updateOne e ?flt b books = Inr (books', n)" using r by simp
      have "unique_ids books'" using u assms(1) by (rule updateOne_unique_ids)
      then show ?thesis
        using Inr u by (simp add: update_book_try_def guarded_def collection_def Let_def)
    qed
  qed
  have del: "?ok (fst (snd (guarded (delete_book_try u ident (Some books)))))" for u ident
  proof (cases "ObjectId ident")
    case (Inl err)
    then show ?thesis using assms(1) by (simp add: delete_book_try_def guarded_def)
  next
    case (Inr oid)
    let ?flt = "[(''_id'', BObjectId oid), (''userEmail'', BStr (email u))]"
    obtain books' n where d: "deleteOne ?flt books = (books', n)" by (cases "deleteOne ?flt books")
    have "unique_ids books'" using deleteOne_unique_ids [OF assms(1), of ?flt] d by simp
    then show ?thesis
      using Inr d by (simp add: delete_book_try_def guarded_def collection_def Let_def)
  qed
  have det: "fst (snd (guarded (book_details_try ident (Some books)))) = Some books" for ident
    by (simp add: book_details_try_def guarded_def collection_def Let_def
        split: sum.splits option.splits)
  have mine: "fst (snd (guarded (my_books_try u (Some books)))) = Some books" for u
    by (simp add: my_books_try_def guarded_def collection_def Let_def)
  have all: "fst (snd (guarded (all_books_try (Some books)))) = Some books"
    by (simp add: all_books_try_def guarded_def collection_def)
  show ?thesis
  proof (cases "route req")
    case Liveness
    then show ?thesis using db' same by (simp add: serve_def)
  next
    case AddBook
    then show ?thesis
      using db' same add with_auth_store [of e req "Some books" "\<lambda>u. guarded (add_book_try e u (body req) (Some books))"]
      by (auto simp: serve_def)
  next
    case AllBooks
    then show ?thesis using db' same all by (simp add: serve_def)
  next
    case (BookDetails ident)
    then show ?thesis
      using db' same det with_auth_store [of e req "Some books" "\<lambda>u. guarded (book_details_try ident (Some books))"]
      by (auto simp: serve_def)
  next
    case MyBooks
    then show ?thesis
      using db' same mine with_auth_store [of e req "Some books" "\<lambda>u. guarded (my_books_try u (Some books))"]
      by (auto simp: serve_def)
  next
    case (UpdateBook ident)
    then show ?thesis
      using db' same upd with_auth_store [of e req "Some books" "\<lambda>u. guarded (update_book_try e u ident (body req) (Some books))"]
      by (auto simp: serve_def)
  next
    case (DeleteBook ident)
    then show ?thesis
      using db' same del with_auth_store [of e req "Some books" "\<lambda>u. guarded (delete_book_try u ident (Some books))"]
      by (auto simp: serve_def)
  qed
qed

end
